theory Spec2Isabelle
  imports Main "HOL-Library.Word"
begin

unbundle bit_operations_syntax

section \<open>gexec: sessions around external processes\<close>

text \<open>
  A shallow embedding of \<^verbatim>\<open>src/gexec/session.go\<close>: the \<^verbatim>\<open>Session\<close> struct,
  \<^verbatim>\<open>Start\<close>, the watcher goroutine \<^verbatim>\<open>monitorForExit\<close> and the query
  \<^verbatim>\<open>getExitCode\<close>. The Go standard library and the capture buffer are not part of
  that file; what the code uses of them is written out below, each piece with the place
  it comes from.
\<close>

subsection \<open>Values of the Go runtime\<close>

type_synonym bytes = string

text \<open>An \<^verbatim>\<open>error\<close> value; \<^verbatim>\<open>nil\<close> is \<open>None\<close> of \<open>error option\<close>.\<close>

datatype error =
    ErrShortWrite
  | StartError string
  | WaitError string
  | ExitError
  | SinkError string

text \<open>\<^verbatim>\<open>reflect.Kind\<close>, the kinds of the dynamic type of a value.\<close>

datatype kind =
    KInvalid | KBool | KInt | KInt8 | KInt16 | KInt32 | KInt64
  | KUint | KUint8 | KUint16 | KUint32 | KUint64 | KUintptr
  | KFloat32 | KFloat64 | KComplex64 | KComplex128
  | KArray | KChan | KFunc | KInterface | KMap | KPointer | KSlice
  | KString | KStruct | KUnsafePointer

text \<open>A run-time panic: the goroutine, and with it the program, stops.\<close>

datatype panic =
    ValueError string kind
  | NilDereference

text \<open>
  A non-nil \<^verbatim>\<open>io.Writer\<close> interface value. \<open>Buffer a\<close> is the
  \<^verbatim>\<open>*gbytes.Buffer\<close> at address \<open>a\<close>, \<open>MultiWriter ws\<close> the pointer returned by
  \<^verbatim>\<open>io.MultiWriter(ws...)\<close>, and \<open>External k n i\<close> a writer of the caller: the kind
  \<open>k\<close> of its dynamic type, whether the value it holds is nil (\<open>n\<close>), and the
  identity \<open>i\<close> of the sink behind it. The nil interface is \<open>None\<close> of
  \<open>iowriter option\<close>.
\<close>

datatype iowriter =
    Buffer nat
  | MultiWriter "iowriter list"
  | External kind bool nat

text \<open>
  The memory the writers refer to: the capture buffers by address, and for every sink
  of the caller the chunks its \<^verbatim>\<open>Write\<close> method was called with, oldest first.
\<close>

record heap =
  bufs :: "bytes list"
  seen :: "nat \<Rightarrow> bytes list"

text \<open>
  What a sink of the caller answers to \<^verbatim>\<open>Write(p)\<close>, given its identity and the
  chunks it has received before: the count \<^verbatim>\<open>n\<close> and the error.
\<close>

type_synonym sink_write = "nat \<Rightarrow> bytes list \<Rightarrow> bytes \<Rightarrow> nat \<times> error option"

subsection \<open>reflect\<close>

text \<open>
  \<^verbatim>\<open>reflect.ValueOf(w)\<close> of a non-nil interface value: the kind of the dynamic
  type and whether the value is nil. The two writers this package builds are non-nil
  pointers.
\<close>

fun ValueOf :: "iowriter \<Rightarrow> kind \<times> bool" where
  "ValueOf (Buffer a) = (KPointer, False)"
| "ValueOf (MultiWriter ws) = (KPointer, False)"
| "ValueOf (External k n i) = (k, n)"

text \<open>
  \<^verbatim>\<open>reflect.Value.IsNil\<close> (Go standard library): the argument must be a chan,
  func, interface, map, pointer, slice or unsafe pointer value; on any other kind it
  panics with a \<^verbatim>\<open>*reflect.ValueError\<close>.
\<close>

fun nilable :: "kind \<Rightarrow> bool" where
  "nilable KChan = True"
| "nilable KFunc = True"
| "nilable KInterface = True"
| "nilable KMap = True"
| "nilable KPointer = True"
| "nilable KSlice = True"
| "nilable KUnsafePointer = True"
| "nilable _ = False"

definition IsNil :: "kind \<times> bool \<Rightarrow> panic + bool" where
  "IsNil v = (if nilable (fst v) then Inr (snd v)
              else Inl (ValueError ''reflect.Value.IsNil'' (fst v)))"

subsection \<open>Writers\<close>

text \<open>
  Modelled from the spec: \<^verbatim>\<open>gbytes.NewBuffer\<close>. The capture buffer is in package
  \<^verbatim>\<open>gbytes\<close> of this repository, which is not among the sources. The spec requires
  of it "a constructor producing an empty instance" and that it "implements the
  standard writable-stream contract (accepts byte chunks, appends them, thread-safe)".
  The new buffer is empty and sits at a fresh address.
\<close>

definition NewBuffer :: "heap \<Rightarrow> nat \<times> heap" where
  "NewBuffer h = (length (bufs h), h\<lparr>bufs := bufs h @ [[]]\<rparr>)"

text \<open>
  Modelled from the spec: \<^verbatim>\<open>(*gbytes.Buffer).Write\<close>, missing like the constructor.
  It "accepts byte chunks, appends them": the chunk goes to the end of the buffer at the
  address and the write reports all of it written. Addresses come from \<open>NewBuffer\<close>
  only, so the buffer at an address in use exists.
\<close>

definition Buffer_Write :: "nat \<Rightarrow> bytes \<Rightarrow> heap \<Rightarrow> heap \<times> nat \<times> error option" where
  "Buffer_Write a p h = (h\<lparr>bufs := (bufs h)[a := bufs h ! a @ p]\<rparr>, length p, None)"

text \<open>
  \<^verbatim>\<open>Write(p)\<close> on a writer. A sink of the caller receives the chunk and answers
  as it likes. \<^verbatim>\<open>io.MultiWriter\<close> (Go standard library) writes to its writers in
  order and stops at the first one that returns an error or a count other than
  \<^verbatim>\<open>len(p)\<close>, the latter as \<^verbatim>\<open>io.ErrShortWrite\<close>.
\<close>

fun Write :: "sink_write \<Rightarrow> iowriter \<Rightarrow> bytes \<Rightarrow> heap \<Rightarrow> heap \<times> nat \<times> error option"
  and Write_each :: "sink_write \<Rightarrow> iowriter list \<Rightarrow> bytes \<Rightarrow> heap \<Rightarrow> heap \<times> nat \<times> error option"
where
  "Write sw (Buffer a) p h = Buffer_Write a p h"
| "Write sw (External k n i) p h =
     (h\<lparr>seen := (seen h)(i := seen h i @ [p])\<rparr>, sw i (seen h i) p)"
| "Write sw (MultiWriter ws) p h = Write_each sw ws p h"
| "Write_each sw [] p h = (h, length p, None)"
| "Write_each sw (w # ws) p h =
     (case Write sw w p h of
        (h', n, Some e) \<Rightarrow> (h', n, Some e)
      | (h', n, None) \<Rightarrow>
          if n \<noteq> length p then (h', n, Some ErrShortWrite)
          else Write_each sw ws p h')"

subsection \<open>os/exec and syscall\<close>

text \<open>
  \<^verbatim>\<open>syscall.WaitStatus\<close> (Go standard library, Linux): a 32-bit status word. The
  low seven bits are zero for a process that exited, \<^verbatim>\<open>0x7F\<close> for a stopped one,
  and the signal number for one that a signal terminated; an exit code sits in the
  second byte.
\<close>

type_synonym WaitStatus = "32 word"

definition Exited :: "WaitStatus \<Rightarrow> bool" where
  "Exited w = (w AND 0x7F = 0x00)"

definition Signaled :: "WaitStatus \<Rightarrow> bool" where
  "Signaled w = (w AND 0x7F \<noteq> 0x7F \<and> w AND 0x7F \<noteq> 0x00)"

definition ExitStatus :: "WaitStatus \<Rightarrow> int" where
  "ExitStatus w = (if \<not> Exited w then - 1 else uint (drop_bit 8 w) AND 0xFF)"

text \<open>
  The process behind an \<^verbatim>\<open>exec.Cmd\<close> that was started: the destinations its two
  output streams were connected to.
\<close>

record Process =
  child_out :: "iowriter option"
  child_err :: "iowriter option"

text \<open>The fields of \<^verbatim>\<open>exec.Cmd\<close> that this package reads or writes.\<close>

record Cmd =
  Stdout :: "iowriter option"
  Stderr :: "iowriter option"
  Process :: "Process option"
  ProcessState :: "WaitStatus option"

text \<open>
  \<^verbatim>\<open>(*exec.Cmd).Start\<close>: it fails with an error of the operating system, or it
  launches the process with the destinations that the fields \<^verbatim>\<open>Stdout\<close> and
  \<^verbatim>\<open>Stderr\<close> hold at the moment of the call. Whether it fails is the caller's
  world, so it is a parameter.
\<close>

definition Cmd_Start :: "error option \<Rightarrow> Cmd \<Rightarrow> Cmd \<times> error option" where
  "Cmd_Start start_result c =
     (case start_result of
        Some e \<Rightarrow> (c, Some e)
      | None \<Rightarrow> (c\<lparr>Process := Some \<lparr>child_out = Stdout c, child_err = Stderr c\<rparr>\<rparr>, None))"

subsection \<open>Session and Start\<close>

text \<open>Who holds the \<^verbatim>\<open>sync.Mutex\<close>: the watcher goroutine or a caller of the query.\<close>

datatype thread = Watcher | Caller nat

text \<open>
  The struct \<^verbatim>\<open>Session\<close>. \<open>Out\<close> and \<open>Err\<close> are the addresses of the two capture
  buffers, \<open>lock\<close> is the state of the mutex (\<open>None\<close> when unlocked).
\<close>

record Session =
  Command :: Cmd
  Out :: nat
  Err :: nat
  lock :: "thread option"
  exitCode :: int

text \<open>
  The test of lines 63 and 67, \<^verbatim>\<open>w != nil && !reflect.ValueOf(w).IsNil()\<close>: the
  second operand is evaluated only for a non-nil interface, and it may panic.
\<close>

definition present :: "iowriter option \<Rightarrow> panic + bool" where
  "present w =
     (case w of
        None \<Rightarrow> Inr False
      | Some v \<Rightarrow> (case IsNil (ValueOf v) of Inl e \<Rightarrow> Inl e | Inr b \<Rightarrow> Inr (\<not> b)))"

text \<open>The destination of a stream: the capture buffer, or the fan-out of lines 64 and 68.\<close>

definition destination :: "nat \<Rightarrow> iowriter option \<Rightarrow> panic + iowriter" where
  "destination a w =
     (case present w of
        Inl e \<Rightarrow> Inl e
      | Inr b \<Rightarrow>
          (case w of
             Some v \<Rightarrow> if b then Inr (MultiWriter [Buffer a, v]) else Inr (Buffer a)
           | None \<Rightarrow> Inr (Buffer a)))"

text \<open>
  The result of \<^verbatim>\<open>Start\<close> when it returns: the heap with the two new buffers, the
  session, the error, and whether \<^verbatim>\<open>go session.monitorForExit()\<close> was executed.
\<close>

record started =
  mem :: heap
  session :: Session
  err :: "error option"
  watching :: bool

definition Start ::
  "error option \<Rightarrow> heap \<Rightarrow> Cmd \<Rightarrow> iowriter option \<Rightarrow> iowriter option \<Rightarrow> panic + started" where
  "Start start_result h command outWriter errWriter =
     (let (out, h1) = NewBuffer h;
          (er, h2) = NewBuffer h1
      in case destination out outWriter of
           Inl e \<Rightarrow> Inl e
         | Inr commandOut \<Rightarrow>
             (case destination er errWriter of
                Inl e \<Rightarrow> Inl e
              | Inr commandErr \<Rightarrow>
                  (let wired = command\<lparr>Stdout := Some commandOut, Stderr := Some commandErr\<rparr>;
                       (command', e) = Cmd_Start start_result wired
                   in Inr \<lparr>mem = h2,
                           session = \<lparr>Command = command', Out = out, Err = er,
                                      lock = None, exitCode = - 1\<rparr>,
                           err = e,
                           watching = (e = None)\<rparr>)))"

subsection \<open>The copy of a stream\<close>

text \<open>
  The addresses of capture buffers that a writer refers to. A writer that the caller
  hands to \<^verbatim>\<open>Start\<close> can only refer to buffers that exist already.
\<close>

fun addresses :: "iowriter \<Rightarrow> nat list" where
  "addresses (Buffer a) = [a]"
| "addresses (External k n i) = []"
| "addresses (MultiWriter ws) = concat (map addresses ws)"

definition allocated :: "heap \<Rightarrow> iowriter option \<Rightarrow> bool" where
  "allocated h w = (case w of None \<Rightarrow> True
                    | Some v \<Rightarrow> list_all (\<lambda>a. a < length (bufs h)) (addresses v))"

text \<open>
  The goroutine that os/exec starts for a destination that is not a file runs
  \<^verbatim>\<open>io.Copy\<close> (Go standard library): it writes the chunks it reads from the
  process, in order, and stops at the first write that returns an error or a short
  count.
\<close>

fun Copy :: "sink_write \<Rightarrow> iowriter \<Rightarrow> bytes list \<Rightarrow> heap \<Rightarrow> heap \<times> error option" where
  "Copy sw d [] h = (h, None)"
| "Copy sw d (p # ps) h =
     (case Write sw d p h of
        (h', n, Some e) \<Rightarrow> (h', Some e)
      | (h', n, None) \<Rightarrow>
          if n \<noteq> length p then (h', Some ErrShortWrite) else Copy sw d ps h')"

subsection \<open>The goroutines, step by step\<close>

text \<open>
  After \<^verbatim>\<open>Start\<close> has returned, the watcher goroutine, the callers of the query and
  the process run concurrently. Every statement of \<^verbatim>\<open>monitorForExit\<close> and of
  \<^verbatim>\<open>getExitCode\<close> is one step; a schedule, a list of actions, is one interleaving.
  All accesses to shared memory are steps of their own, so the interleavings are the
  executions of the program.
\<close>

text \<open>Where the watcher stands in \<^verbatim>\<open>monitorForExit\<close> (lines 83 to 86).\<close>

datatype wpc = NotLaunched | AtWait | AtLock | AtAssign | AtUnlock | Returned

text \<open>
  Where a caller stands in \<^verbatim>\<open>getExitCode\<close>: not in the function, after
  \<^verbatim>\<open>s.lock.Lock()\<close>, or with the operand of \<^verbatim>\<open>return\<close> evaluated and the
  deferred \<^verbatim>\<open>Unlock\<close> still to run.
\<close>

datatype qpc = Idle | Locked | Returning int

datatype stream = StdoutStream | StderrStream

datatype action =
    Terminate
  | Emit stream bytes
  | Watch
  | Query nat

text \<open>
  What the session does not decide: how the sinks of the caller answer, the error that
  \<^verbatim>\<open>command.Wait()\<close> returns, and the \<^verbatim>\<open>ProcessState\<close> it leaves in the
  command (nil when the wait of the operating system failed).
\<close>

record world =
  sink :: sink_write
  wait_error :: "error option"
  wait_state :: "WaitStatus option"

text \<open>
  The running system. \<open>results\<close> lists the values that calls of \<^verbatim>\<open>getExitCode\<close>
  have returned, with the caller, oldest first; \<open>stores\<close> counts the assignments to
  \<^verbatim>\<open>exitCode\<close> executed so far (both are history, no code reads them).
  \<open>terminated\<close> says that the operating system has answered the wait for the
  process; \<open>copying\<close> which copy goroutines still run; \<open>crashed\<close> the panic that
  stopped the program.
\<close>

record system =
  memory :: heap
  sess :: Session
  watcher :: wpc
  callers :: "nat \<Rightarrow> qpc"
  results :: "(nat \<times> int) list"
  stores :: nat
  terminated :: bool
  copying :: "stream \<Rightarrow> bool"
  crashed :: "panic option"

definition initial :: "started \<Rightarrow> system" where
  "initial r =
     \<lparr>memory = mem r, sess = session r,
      watcher = (if watching r then AtWait else NotLaunched),
      callers = (\<lambda>i. Idle), results = [], stores = 0, terminated = False,
      copying = (\<lambda>st. True), crashed = None\<rparr>"

text \<open>
  One step of \<^verbatim>\<open>monitorForExit\<close>. \<^verbatim>\<open>Wait\<close> blocks until the operating system
  answers; its error is dropped. \<^verbatim>\<open>Lock\<close> blocks while the mutex is held. The
  assignment dereferences \<^verbatim>\<open>s.Command.ProcessState\<close>, a nil pointer when the wait
  failed.
\<close>

definition monitorForExit :: "world \<Rightarrow> system \<Rightarrow> system option" where
  "monitorForExit w s =
     (case watcher s of
        NotLaunched \<Rightarrow> None
      | AtWait \<Rightarrow>
          if terminated s
          then Some (s\<lparr>sess := (sess s)\<lparr>Command := (Command (sess s))\<lparr>ProcessState := wait_state w\<rparr>\<rparr>,
                       watcher := AtLock\<rparr>)
          else None
      | AtLock \<Rightarrow>
          if lock (sess s) = None
          then Some (s\<lparr>sess := (sess s)\<lparr>lock := Some Watcher\<rparr>, watcher := AtAssign\<rparr>)
          else None
      | AtAssign \<Rightarrow>
          (case ProcessState (Command (sess s)) of
             None \<Rightarrow> Some (s\<lparr>crashed := Some NilDereference\<rparr>)
           | Some ws \<Rightarrow>
               Some (s\<lparr>sess := (sess s)\<lparr>exitCode := ExitStatus ws\<rparr>,
                       stores := Suc (stores s), watcher := AtUnlock\<rparr>))
      | AtUnlock \<Rightarrow> Some (s\<lparr>sess := (sess s)\<lparr>lock := None\<rparr>, watcher := Returned\<rparr>)
      | Returned \<Rightarrow> None)"

text \<open>One step of caller \<open>i\<close> in \<^verbatim>\<open>getExitCode\<close>.\<close>

definition getExitCode :: "nat \<Rightarrow> system \<Rightarrow> system option" where
  "getExitCode i s =
     (case callers s i of
        Idle \<Rightarrow>
          if lock (sess s) = None
          then Some (s\<lparr>sess := (sess s)\<lparr>lock := Some (Caller i)\<rparr>,
                       callers := (callers s)(i := Locked)\<rparr>)
          else None
      | Locked \<Rightarrow> Some (s\<lparr>callers := (callers s)(i := Returning (exitCode (sess s)))\<rparr>)
      | Returning v \<Rightarrow>
          Some (s\<lparr>sess := (sess s)\<lparr>lock := None\<rparr>,
                  callers := (callers s)(i := Idle),
                  results := results s @ [(i, v)]\<rparr>))"

text \<open>
  The process writes a chunk to one of its output streams. The copy goroutine of that
  stream hands it to the destination the process was started with, and ends at the
  first failed write; a chunk for a stream without destination or without copy
  goroutine reaches nobody.
\<close>

definition emit :: "world \<Rightarrow> stream \<Rightarrow> bytes \<Rightarrow> system \<Rightarrow> system option" where
  "emit w st p s =
     (case Process (Command (sess s)) of
        None \<Rightarrow> None
      | Some pr \<Rightarrow>
          if terminated s then None
          else if \<not> copying s st then Some s
          else (case (case st of StdoutStream \<Rightarrow> child_out pr | StderrStream \<Rightarrow> child_err pr) of
                  None \<Rightarrow> Some s
                | Some d \<Rightarrow>
                    (case Write (sink w) d p (memory s) of
                       (h', n, e) \<Rightarrow>
                         Some (s\<lparr>memory := h',
                                 copying := (copying s)(st := (e = None \<and> n = length p))\<rparr>))))"

definition step :: "world \<Rightarrow> action \<Rightarrow> system \<Rightarrow> system option" where
  "step w a s =
     (if crashed s \<noteq> None then None
      else case a of
        Terminate \<Rightarrow>
          if Process (Command (sess s)) \<noteq> None \<and> \<not> terminated s
          then Some (s\<lparr>terminated := True\<rparr>) else None
      | Emit st p \<Rightarrow> emit w st p s
      | Watch \<Rightarrow> monitorForExit w s
      | Query i \<Rightarrow> getExitCode i s)"

text \<open>A schedule runs from a state; \<open>None\<close> when one of its actions cannot be taken.\<close>

fun run :: "world \<Rightarrow> action list \<Rightarrow> system \<Rightarrow> system option" where
  "run w [] s = Some s"
| "run w (a # as) s = (case step w a s of None \<Rightarrow> None | Some s' \<Rightarrow> run w as s')"

text \<open>The system that a call of \<^verbatim>\<open>Start\<close> leaves behind, if it returns.\<close>

definition launch ::
  "error option \<Rightarrow> heap \<Rightarrow> Cmd \<Rightarrow> iowriter option \<Rightarrow> iowriter option \<Rightarrow> system option" where
  "launch start_result h command outWriter errWriter =
     (case Start start_result h command outWriter errWriter of
        Inl e \<Rightarrow> None
      | Inr r \<Rightarrow> Some (initial r))"

subsection \<open>Example inputs\<close>

definition empty_heap :: heap where
  "empty_heap = \<lparr>bufs = [], seen = (\<lambda>i. [])\<rparr>"

definition fresh_cmd :: Cmd where
  "fresh_cmd = \<lparr>Stdout = None, Stderr = None, Process = None, ProcessState = None\<rparr>"

text \<open>A sink that accepts every chunk whole.\<close>

definition accepting :: sink_write where
  "accepting i hist p = (length p, None)"

text \<open>A sink that accepts its first chunk and fails from the second on.\<close>

definition failing_second :: sink_write where
  "failing_second i hist p = (if hist = [] then (length p, None) else (0, Some (SinkError ''full'')))"

text \<open>The status words of a process that called \<^verbatim>\<open>exit(c)\<close>, and of one killed by signal \<open>sig\<close>.\<close>

definition exit_with :: "nat \<Rightarrow> WaitStatus" where
  "exit_with c = push_bit 8 (of_nat c)"

definition killed_by :: "nat \<Rightarrow> WaitStatus" where
  "killed_by sig = of_nat sig"

definition world_of :: "error option \<Rightarrow> WaitStatus option \<Rightarrow> world" where
  "world_of e ws = \<lparr>sink = accepting, wait_error = e, wait_state = ws\<rparr>"

subsection \<open>The invariant of the running system\<close>

text \<open>The watcher has executed the assignment of line 85.\<close>

fun stored :: "wpc \<Rightarrow> bool" where
  "stored AtUnlock = True"
| "stored Returned = True"
| "stored _ = False"

text \<open>The watcher has returned from \<^verbatim>\<open>s.Command.Wait()\<close>.\<close>

fun waited :: "wpc \<Rightarrow> bool" where
  "waited NotLaunched = False"
| "waited AtWait = False"
| "waited _ = True"

text \<open>
  What holds in every state that a schedule reaches: the mutex is held by exactly the
  goroutine that stands between its \<^verbatim>\<open>Lock\<close> and its \<^verbatim>\<open>Unlock\<close>; a value
  that a caller is about to return is the one in the store; the store holds the
  sentinel until the watcher's assignment and the exit status of the process after it;
  and every value returned so far is one of the two.
\<close>

definition consistent :: "world \<Rightarrow> system \<Rightarrow> bool" where
  "consistent w s =
     ((lock (sess s) = Some Watcher \<longleftrightarrow> watcher s = AtAssign \<or> watcher s = AtUnlock) \<and>
      (\<forall>i. lock (sess s) = Some (Caller i) \<longleftrightarrow> callers s i \<noteq> Idle) \<and>
      (\<forall>i v. callers s i = Returning v \<longrightarrow> v = exitCode (sess s)) \<and>
      (if stored (watcher s)
       then stores s = 1 \<and> (\<exists>ws. wait_state w = Some ws \<and> exitCode (sess s) = ExitStatus ws)
       else stores s = 0 \<and> exitCode (sess s) = - 1 \<and> (\<forall>x \<in> set (results s). snd x = - 1)) \<and>
      (\<forall>x \<in> set (results s).
         snd x = - 1 \<or> (\<exists>ws. wait_state w = Some ws \<and> snd x = ExitStatus ws)) \<and>
      (waited (watcher s) \<longrightarrow> ProcessState (Command (sess s)) = wait_state w))"

section \<open>Properties\<close>

subsection \<open>The invariant holds along every schedule\<close>

lemma Start_session:
  "Start sr h c ow ew = Inr r \<Longrightarrow> lock (session r) = None \<and> exitCode (session r) = - 1"
  by (auto simp: Start_def NewBuffer_def Let_def split: sum.splits prod.splits)

lemma consistent_initial:
  "Start sr h c ow ew = Inr r \<Longrightarrow> consistent w (initial r)"
  by (frule Start_session) (simp add: consistent_def initial_def)

lemma consistent_terminate:
  "consistent w s \<Longrightarrow> consistent w (s\<lparr>terminated := True\<rparr>)"
  by (simp add: consistent_def)


lemma consistent_frame [simp]:
  "consistent w (s\<lparr>memory := m\<rparr>) = consistent w s"
  "consistent w (s\<lparr>copying := c\<rparr>) = consistent w s"
  "consistent w (s\<lparr>crashed := x\<rparr>) = consistent w s"
  by (simp_all add: consistent_def)

lemma consistent_emit:
  "consistent w s \<Longrightarrow> emit w st p s = Some s' \<Longrightarrow> consistent w s'"
  by (auto simp: emit_def split: option.splits if_splits prod.splits)

lemma consistent_monitorForExit:
  assumes "consistent w s" and "monitorForExit w s = Some s'"
  shows "consistent w s'"
proof (cases "watcher s")
  case NotLaunched
  with assms show ?thesis by (simp add: monitorForExit_def)
next
  case AtWait
  with assms show ?thesis
    by (auto simp: monitorForExit_def consistent_def split: if_splits)
next
  case AtLock
  with assms show ?thesis
    by (auto simp: monitorForExit_def consistent_def split: if_splits)
next
  case AtAssign
  with assms show ?thesis
    by (auto simp: monitorForExit_def consistent_def split: option.splits)
next
  case AtUnlock
  with assms show ?thesis
    by (auto simp: monitorForExit_def consistent_def)
next
  case Returned
  with assms show ?thesis by (simp add: monitorForExit_def)
qed


lemma consistent_getExitCode:
  assumes "consistent w s" and "getExitCode i s = Some s'"
  shows "consistent w s'"
proof (cases "callers s i")
  case Idle
  with assms have free: "lock (sess s) = None"
    and s': "s' = s\<lparr>sess := (sess s)\<lparr>lock := Some (Caller i)\<rparr>, callers := (callers s)(i := Locked)\<rparr>"
    by (auto simp: getExitCode_def split: if_splits)
  from assms(1) free have "\<forall>j. callers s j = Idle"
    by (simp add: consistent_def)
  with assms(1) free show ?thesis
    unfolding s' consistent_def by simp
next
  case Locked
  with assms have s': "s' = s\<lparr>callers := (callers s)(i := Returning (exitCode (sess s)))\<rparr>"
    by (simp add: getExitCode_def)
  from assms(1) Locked show ?thesis
    unfolding s' consistent_def by auto
next
  case (Returning v)
  with assms have s': "s' = s\<lparr>sess := (sess s)\<lparr>lock := None\<rparr>, callers := (callers s)(i := Idle),
                               results := results s @ [(i, v)]\<rparr>"
    by (simp add: getExitCode_def)
  from assms(1) Returning have held: "lock (sess s) = Some (Caller i)" and v: "v = exitCode (sess s)"
    by (auto simp: consistent_def)
  from assms(1) held have others: "\<forall>j. j \<noteq> i \<longrightarrow> callers s j = Idle"
    by (auto simp: consistent_def)
  from assms(1) held have nw: "watcher s \<noteq> AtAssign \<and> watcher s \<noteq> AtUnlock"
    by (auto simp: consistent_def)
  from assms(1) others nw v show ?thesis
    unfolding s' consistent_def by (auto split: if_splits)
qed

lemma consistent_step:
  "consistent w s \<Longrightarrow> step w a s = Some s' \<Longrightarrow> consistent w s'"
  by (cases a)
     (auto simp: step_def consistent_terminate
           dest: consistent_emit consistent_monitorForExit consistent_getExitCode
           split: if_splits)

lemma consistent_run:
  "consistent w s \<Longrightarrow> run w sched s = Some t \<Longrightarrow> consistent w t"
  by (induction sched arbitrary: s) (auto split: option.splits dest: consistent_step)

lemma stored_step:
  assumes "consistent w s" and "stored (watcher s)" and "step w a s = Some s'"
  shows "stored (watcher s') \<and> exitCode (sess s') = exitCode (sess s) \<and>
         (\<exists>rs. results s' = results s @ rs \<and> (\<forall>x \<in> set rs. snd x = exitCode (sess s)))"
proof (cases a)
  case Terminate
  with assms show ?thesis by (auto simp: step_def split: if_splits)
next
  case (Emit st p)
  with assms show ?thesis
    by (auto simp: step_def emit_def split: if_splits option.splits prod.splits)
next
  case Watch
  with assms show ?thesis
    by (cases "watcher s") (auto simp: step_def monitorForExit_def split: if_splits)
next
  case (Query i)
  with assms show ?thesis
    by (cases "callers s i") (auto simp: step_def getExitCode_def consistent_def split: if_splits)
qed

lemma stored_run:
  "consistent w s \<Longrightarrow> stored (watcher s) \<Longrightarrow> run w sched s = Some t \<Longrightarrow>
   stored (watcher t) \<and> exitCode (sess t) = exitCode (sess s) \<and>
   (\<exists>rs. results t = results s @ rs \<and> (\<forall>x \<in> set rs. snd x = exitCode (sess s)))"
proof (induction sched arbitrary: s)
  case Nil
  then show ?case by simp
next
  case (Cons a sched)
  from Cons.prems(3) obtain s' where a: "step w a s = Some s'" and rest: "run w sched s' = Some t"
    by (auto split: option.splits)
  from stored_step [OF Cons.prems(1,2) a] obtain rs where
    st: "stored (watcher s')" and ec: "exitCode (sess s') = exitCode (sess s)" and
    rs: "results s' = results s @ rs" "\<forall>x \<in> set rs. snd x = exitCode (sess s)"
    by blast
  from Cons.IH [OF consistent_step [OF Cons.prems(1) a] st rest] obtain rs' where
    t: "stored (watcher t)" "exitCode (sess t) = exitCode (sess s')"
       "results t = results s' @ rs'" "\<forall>x \<in> set rs'. snd x = exitCode (sess s')"
    by blast
  from t rs ec have "results t = results s @ (rs @ rs')"
    and "\<forall>x \<in> set (rs @ rs'). snd x = exitCode (sess s)"
    by auto
  with t ec show ?case by metis
qed

lemma only_watcher_stores:
  "a \<noteq> Watch \<Longrightarrow> step w a s = Some u \<Longrightarrow>
   exitCode (sess u) = exitCode (sess s) \<and> stores u = stores s"
  by (cases a)
     (auto simp: step_def emit_def getExitCode_def
           split: if_splits option.splits prod.splits qpc.splits)

text \<open>The definitions that evaluate the model on concrete inputs.\<close>

lemmas model_defs =
  launch_def Start_def NewBuffer_def destination_def present_def IsNil_def Cmd_Start_def
  initial_def step_def getExitCode_def monitorForExit_def emit_def Buffer_Write_def
  empty_heap_def fresh_cmd_def world_of_def accepting_def failing_second_def
  exit_with_def killed_by_def ExitStatus_def Exited_def Signaled_def

lemma consistent_launch:
  "launch sr h c ow ew = Some s0 \<Longrightarrow> consistent w s0"
  by (auto simp: launch_def split: sum.splits dest: consistent_initial)

lemma watcher_step_stores:
  "step w Watch s = Some u \<Longrightarrow> watcher s \<noteq> AtAssign \<Longrightarrow>
   exitCode (sess u) = exitCode (sess s) \<and> stores u = stores s"
  by (cases "watcher s") (auto simp: step_def monitorForExit_def split: if_splits)

subsection \<open>The exit-code store\<close>

text \<open>
  C1. After a successful \<^verbatim>\<open>Start\<close>, along every interleaving: as long as the watcher
  has not executed its assignment, the store holds the sentinel \<open>-1\<close> and every query
  answered so far returned \<open>-1\<close>; once the assignment is done, the store holds the exit
  status of the process, keeps it in every later state, and every query answered later
  returns it. The store is assigned at most once, exactly once when the watcher has
  returned, and by no step other than the watcher's assignment; the watcher at its
  assignment and every caller inside \<^verbatim>\<open>getExitCode\<close> hold the mutex.
\<close>

theorem exit_code_store_lifecycle:
  assumes "launch None h c ow ew = Some s0"
    and "run w pre s0 = Some s"
    and "run w post s = Some t"
  shows "(stores s = 0 \<longrightarrow> exitCode (sess s) = - 1 \<and> (\<forall>x \<in> set (results s). snd x = - 1)) \<and>
         (stores s \<noteq> 0 \<longrightarrow>
            (\<exists>ws. wait_state w = Some ws \<and> exitCode (sess s) = ExitStatus ws \<and>
                  exitCode (sess t) = ExitStatus ws \<and>
                  (\<forall>x \<in> set (drop (length (results s)) (results t)). snd x = ExitStatus ws))) \<and>
         stores t \<le> 1 \<and>
         (watcher t = Returned \<longrightarrow> stores t = 1) \<and>
         (\<forall>a u. step w a s = Some u \<longrightarrow> a \<noteq> Watch \<or> watcher s \<noteq> AtAssign \<longrightarrow>
                exitCode (sess u) = exitCode (sess s) \<and> stores u = stores s) \<and>
         (watcher s = AtAssign \<longrightarrow> lock (sess s) = Some Watcher) \<and>
         (\<forall>i. callers s i \<noteq> Idle \<longrightarrow> lock (sess s) = Some (Caller i))"
proof -
  have cs: "consistent w s"
    using consistent_run [OF consistent_launch [OF assms(1)] assms(2)] .
  have ct: "consistent w t"
    using consistent_run [OF cs assms(3)] .
  have before: "stores s = 0 \<longrightarrow> exitCode (sess s) = - 1 \<and> (\<forall>x \<in> set (results s). snd x = - 1)"
    using cs by (auto simp: consistent_def split: if_splits)
  have after: "stores s \<noteq> 0 \<longrightarrow>
      (\<exists>ws. wait_state w = Some ws \<and> exitCode (sess s) = ExitStatus ws \<and>
            exitCode (sess t) = ExitStatus ws \<and>
            (\<forall>x \<in> set (drop (length (results s)) (results t)). snd x = ExitStatus ws))"
  proof
    assume "stores s \<noteq> 0"
    with cs have st: "stored (watcher s)"
      by (auto simp: consistent_def split: if_splits)
    with cs obtain ws where ws: "wait_state w = Some ws" "exitCode (sess s) = ExitStatus ws"
      by (auto simp: consistent_def)
    from stored_run [OF cs st assms(3)] obtain rs where
      "exitCode (sess t) = exitCode (sess s)" "results t = results s @ rs"
      "\<forall>x \<in> set rs. snd x = exitCode (sess s)"
      by blast
    with ws show "\<exists>ws. wait_state w = Some ws \<and> exitCode (sess s) = ExitStatus ws \<and>
            exitCode (sess t) = ExitStatus ws \<and>
            (\<forall>x \<in> set (drop (length (results s)) (results t)). snd x = ExitStatus ws)"
      by simp
  qed
  have once: "stores t \<le> 1 \<and> (watcher t = Returned \<longrightarrow> stores t = 1)"
    using ct by (auto simp: consistent_def split: if_splits)
  have writer: "\<forall>a u. step w a s = Some u \<longrightarrow> a \<noteq> Watch \<or> watcher s \<noteq> AtAssign \<longrightarrow>
                exitCode (sess u) = exitCode (sess s) \<and> stores u = stores s"
  proof (intro allI impI)
    fix a u
    assume "step w a s = Some u" and "a \<noteq> Watch \<or> watcher s \<noteq> AtAssign"
    then show "exitCode (sess u) = exitCode (sess s) \<and> stores u = stores s"
      by (cases "a = Watch") (simp_all add: only_watcher_stores watcher_step_stores)
  qed
  have locked: "(watcher s = AtAssign \<longrightarrow> lock (sess s) = Some Watcher) \<and>
         (\<forall>i. callers s i \<noteq> Idle \<longrightarrow> lock (sess s) = Some (Caller i))"
    using cs by (simp add: consistent_def)
  from before after once writer locked show ?thesis by blast
qed

theorem exit_code_store_lifecycle_witness:
  "\<exists>s0 s t.
     launch None empty_heap fresh_cmd None None = Some s0 \<and>
     run (world_of None (Some (exit_with 3)))
       [Query 0, Query 0, Query 0, Terminate, Watch, Watch, Watch, Watch] s0 = Some s \<and>
     run (world_of None (Some (exit_with 3))) [Query 1, Query 1, Query 1] s = Some t \<and>
     stores s = 1 \<and> results s = [(0, - 1)] \<and>
     exitCode (sess s) = 3 \<and> exitCode (sess t) = 3 \<and> results t = [(0, - 1), (1, 3)]"
proof -
  define s0 where "s0 = the (launch None empty_heap fresh_cmd None None)"
  define s where "s = the (run (world_of None (Some (exit_with 3)))
       [Query 0, Query 0, Query 0, Terminate, Watch, Watch, Watch, Watch] s0)"
  define t where "t = the (run (world_of None (Some (exit_with 3))) [Query 1, Query 1, Query 1] s)"
  have l: "launch None empty_heap fresh_cmd None None = Some s0"
    by (simp add: s0_def model_defs)
  have r1: "run (world_of None (Some (exit_with 3)))
       [Query 0, Query 0, Query 0, Terminate, Watch, Watch, Watch, Watch] s0 = Some s"
    by (simp add: s_def s0_def model_defs)
  have r2: "run (world_of None (Some (exit_with 3))) [Query 1, Query 1, Query 1] s = Some t"
    by (simp add: t_def s_def s0_def model_defs)
  have n: "stores s = 1" and rs: "results s = [(0, - 1)]"
    by (simp_all add: s_def s0_def model_defs)
  have rt: "results t = [(0, - 1), (1, 3)]"
    by (simp add: t_def s_def s0_def model_defs)
  have e3: "ExitStatus (exit_with 3) = 3"
    by (simp add: model_defs)
  from exit_code_store_lifecycle [OF l r1 r2] n
  obtain ws where "wait_state (world_of None (Some (exit_with 3))) = Some ws"
    "exitCode (sess s) = ExitStatus ws" "exitCode (sess t) = ExitStatus ws"
    by auto
  with e3 have es: "exitCode (sess s) = 3" and et: "exitCode (sess t) = 3"
    by (simp_all add: world_of_def)
  show ?thesis
  proof (intro exI conjI)
    show "launch None empty_heap fresh_cmd None None = Some s0" by (fact l)
    show "run (world_of None (Some (exit_with 3)))
       [Query 0, Query 0, Query 0, Terminate, Watch, Watch, Watch, Watch] s0 = Some s" by (fact r1)
    show "run (world_of None (Some (exit_with 3))) [Query 1, Query 1, Query 1] s = Some t" by (fact r2)
    show "stores s = 1" by (fact n)
    show "results s = [(0, - 1)]" by (fact rs)
    show "exitCode (sess s) = 3" by (fact es)
    show "exitCode (sess t) = 3" by (fact et)
    show "results t = [(0, - 1), (1, 3)]" by (fact rt)
  qed
qed

subsection \<open>The query\<close>

lemma getExitCode_blocked:
  "getExitCode i s = None \<longleftrightarrow> callers s i = Idle \<and> lock (sess s) \<noteq> None"
  by (cases "callers s i") (auto simp: getExitCode_def)

lemma getExitCode_unchanged:
  "getExitCode i s = Some s' \<Longrightarrow>
   Command (sess s') = Command (sess s) \<and> Out (sess s') = Out (sess s) \<and>
   Err (sess s') = Err (sess s) \<and> exitCode (sess s') = exitCode (sess s) \<and>
   memory s' = memory s \<and> watcher s' = watcher s \<and> terminated s' = terminated s"
  by (cases "callers s i") (auto simp: getExitCode_def split: if_splits)

text \<open>
  C7. A call of \<^verbatim>\<open>getExitCode\<close> that finds the mutex free runs through: it takes
  the mutex, reads the store while holding it, releases it, and returns the value the store
  had, whatever the watcher and the process are doing. Afterwards the state is the one
  before the call, with the returned value added to the history. A step of the query is
  blocked only by a held mutex (or a crashed program), never by the process, and it
  changes neither the command, nor the addresses or contents of the capture buffers, nor
  the store.
\<close>

theorem getExitCode_frame:
  "(crashed s = None \<and> lock (sess s) = None \<and> callers s i = Idle \<longrightarrow>
      (\<exists>s1 s2. step w (Query i) s = Some s1 \<and> lock (sess s1) = Some (Caller i) \<and>
               step w (Query i) s1 = Some s2 \<and> lock (sess s2) = Some (Caller i) \<and>
               callers s2 i = Returning (exitCode (sess s)) \<and>
               step w (Query i) s2 = Some (s\<lparr>results := results s @ [(i, exitCode (sess s))]\<rparr>))) \<and>
   (step w (Query i) s = None \<longleftrightarrow>
      crashed s \<noteq> None \<or> (callers s i = Idle \<and> lock (sess s) \<noteq> None)) \<and>
   (\<forall>s'. step w (Query i) s = Some s' \<longrightarrow>
      Command (sess s') = Command (sess s) \<and> Out (sess s') = Out (sess s) \<and>
      Err (sess s') = Err (sess s) \<and> exitCode (sess s') = exitCode (sess s) \<and>
      memory s' = memory s \<and> watcher s' = watcher s \<and> terminated s' = terminated s)"
proof -
  have call: "crashed s = None \<and> lock (sess s) = None \<and> callers s i = Idle \<longrightarrow>
      (\<exists>s1 s2. step w (Query i) s = Some s1 \<and> lock (sess s1) = Some (Caller i) \<and>
               step w (Query i) s1 = Some s2 \<and> lock (sess s2) = Some (Caller i) \<and>
               callers s2 i = Returning (exitCode (sess s)) \<and>
               step w (Query i) s2 = Some (s\<lparr>results := results s @ [(i, exitCode (sess s))]\<rparr>))"
  proof
    assume pre: "crashed s = None \<and> lock (sess s) = None \<and> callers s i = Idle"
    define s1 where "s1 = s\<lparr>sess := (sess s)\<lparr>lock := Some (Caller i)\<rparr>,
                             callers := (callers s)(i := Locked)\<rparr>"
    define s2 where "s2 = s1\<lparr>callers := (callers s1)(i := Returning (exitCode (sess s1)))\<rparr>"
    from pre have a: "step w (Query i) s = Some s1"
      by (simp add: step_def getExitCode_def s1_def)
    from pre have b: "step w (Query i) s1 = Some s2"
      by (simp add: step_def getExitCode_def s1_def s2_def)
    have idle: "(callers s)(i := Idle) = callers s"
      using pre by (simp add: fun_upd_idem)
    from pre have "sess s\<lparr>lock := None\<rparr> = sess s"
      by simp
    with pre idle have c: "step w (Query i) s2 = Some (s\<lparr>results := results s @ [(i, exitCode (sess s))]\<rparr>)"
      by (simp add: step_def getExitCode_def s1_def s2_def)
    have d: "lock (sess s1) = Some (Caller i)" and e: "lock (sess s2) = Some (Caller i)"
      and f: "callers s2 i = Returning (exitCode (sess s))"
      by (simp_all add: s1_def s2_def)
    show "\<exists>s1 s2. step w (Query i) s = Some s1 \<and> lock (sess s1) = Some (Caller i) \<and>
               step w (Query i) s1 = Some s2 \<and> lock (sess s2) = Some (Caller i) \<and>
               callers s2 i = Returning (exitCode (sess s)) \<and>
               step w (Query i) s2 = Some (s\<lparr>results := results s @ [(i, exitCode (sess s))]\<rparr>)"
      using a b c d e f by (intro exI [of _ s1] exI [of _ s2] conjI)
  qed
  have blocked: "step w (Query i) s = None \<longleftrightarrow>
      crashed s \<noteq> None \<or> (callers s i = Idle \<and> lock (sess s) \<noteq> None)"
    by (simp add: step_def getExitCode_blocked)
  have frame: "\<forall>s'. step w (Query i) s = Some s' \<longrightarrow>
      Command (sess s') = Command (sess s) \<and> Out (sess s') = Out (sess s) \<and>
      Err (sess s') = Err (sess s) \<and> exitCode (sess s') = exitCode (sess s) \<and>
      memory s' = memory s \<and> watcher s' = watcher s \<and> terminated s' = terminated s"
  proof (intro allI impI)
    fix s'
    assume "step w (Query i) s = Some s'"
    then have "getExitCode i s = Some s'"
      by (simp add: step_def split: if_splits)
    then show "Command (sess s') = Command (sess s) \<and> Out (sess s') = Out (sess s) \<and>
        Err (sess s') = Err (sess s) \<and> exitCode (sess s') = exitCode (sess s) \<and>
        memory s' = memory s \<and> watcher s' = watcher s \<and> terminated s' = terminated s"
      by (rule getExitCode_unchanged)
  qed
  show ?thesis
    by (rule conjI [OF call conjI [OF blocked frame]])
qed

theorem getExitCode_frame_witness:
  "\<exists>s0. launch None empty_heap fresh_cmd None None = Some s0 \<and>
        crashed s0 = None \<and> lock (sess s0) = None \<and> callers s0 0 = Idle \<and>
        exitCode (sess s0) = - 1 \<and> watcher s0 = AtWait \<and> \<not> terminated s0 \<and>
        run (world_of None None) [Query 0, Query 0, Query 0] s0 = Some (s0\<lparr>results := [(0, - 1)]\<rparr>)"
proof -
  define s0 where "s0 = the (launch None empty_heap fresh_cmd None None)"
  have l: "launch None empty_heap fresh_cmd None None = Some s0"
    by (simp add: s0_def model_defs)
  have pre: "crashed s0 = None \<and> lock (sess s0) = None \<and> callers s0 0 = Idle"
    and more: "exitCode (sess s0) = - 1" "watcher s0 = AtWait" "\<not> terminated s0" "results s0 = []"
    by (simp_all add: s0_def model_defs)
  from getExitCode_frame [of s0 0 "world_of None None"] pre
  obtain s1 s2 where "step (world_of None None) (Query 0) s0 = Some s1"
    "step (world_of None None) (Query 0) s1 = Some s2"
    "step (world_of None None) (Query 0) s2 = Some (s0\<lparr>results := results s0 @ [(0, exitCode (sess s0))]\<rparr>)"
    by blast
  with more have r: "run (world_of None None) [Query 0, Query 0, Query 0] s0 = Some (s0\<lparr>results := [(0, - 1)]\<rparr>)"
    by simp
  from pre have p1: "crashed s0 = None" and p2: "lock (sess s0) = None" and p3: "callers s0 0 = Idle"
    by simp_all
  show ?thesis
  proof (intro exI conjI)
    show "launch None empty_heap fresh_cmd None None = Some s0" by (fact l)
    show "crashed s0 = None" by (fact p1)
    show "lock (sess s0) = None" by (fact p2)
    show "callers s0 0 = Idle" by (fact p3)
    show "exitCode (sess s0) = - 1" by (fact more(1))
    show "watcher s0 = AtWait" by (fact more(2))
    show "\<not> terminated s0" by (fact more(3))
    show "run (world_of None None) [Query 0, Query 0, Query 0] s0 = Some (s0\<lparr>results := [(0, - 1)]\<rparr>)"
      by (fact r)
  qed
qed

text \<open>
  C8. Once the watcher has assigned the exit status, any two queries answered afterwards
  return the same value, along every interleaving.
\<close>

theorem getExitCode_idempotent:
  assumes "launch sr h c ow ew = Some s0"
    and "run w pre s0 = Some s"
    and "stored (watcher s)"
    and "run w post s = Some t"
  shows "\<forall>x \<in> set (drop (length (results s)) (results t)).
           \<forall>y \<in> set (drop (length (results s)) (results t)). snd x = snd y"
proof -
  have cs: "consistent w s"
    using consistent_run [OF consistent_launch [OF assms(1)] assms(2)] .
  from stored_run [OF cs assms(3,4)] obtain rs where
    "results t = results s @ rs" "\<forall>x \<in> set rs. snd x = exitCode (sess s)"
    by blast
  then show ?thesis by simp
qed

theorem getExitCode_idempotent_witness:
  "\<exists>s0 s t.
     launch None empty_heap fresh_cmd None None = Some s0 \<and>
     run (world_of None (Some (exit_with 3))) [Terminate, Watch, Watch, Watch, Watch] s0 = Some s \<and>
     stored (watcher s) \<and>
     run (world_of None (Some (exit_with 3)))
       [Query 1, Query 1, Query 1, Query 2, Query 2, Query 2] s = Some t \<and>
     results s = [] \<and> map fst (results t) = [1, 2] \<and>
     snd (results t ! 0) = snd (results t ! 1)"
proof -
  define s0 where "s0 = the (launch None empty_heap fresh_cmd None None)"
  define s where "s = the (run (world_of None (Some (exit_with 3)))
       [Terminate, Watch, Watch, Watch, Watch] s0)"
  define t where "t = the (run (world_of None (Some (exit_with 3)))
       [Query 1, Query 1, Query 1, Query 2, Query 2, Query 2] s)"
  have l: "launch None empty_heap fresh_cmd None None = Some s0"
    by (simp add: s0_def model_defs)
  have r1: "run (world_of None (Some (exit_with 3))) [Terminate, Watch, Watch, Watch, Watch] s0 = Some s"
    by (simp add: s_def s0_def model_defs)
  have st: "stored (watcher s)" and rs: "results s = []"
    by (simp_all add: s_def s0_def model_defs)
  have r2: "run (world_of None (Some (exit_with 3)))
       [Query 1, Query 1, Query 1, Query 2, Query 2, Query 2] s = Some t"
    by (simp add: t_def s_def s0_def model_defs)
  have who: "map fst (results t) = [1, 2]"
    by (simp add: t_def s_def s0_def model_defs)
  have len: "length (results t) = 2"
    by (simp add: t_def s_def s0_def model_defs)
  have all: "\<forall>x \<in> set (results t). \<forall>y \<in> set (results t). snd x = snd y"
    using getExitCode_idempotent [OF l r1 st r2] by (simp only: rs list.size drop_0)
  have m0: "results t ! 0 \<in> set (results t)" and m1: "results t ! 1 \<in> set (results t)"
    using len by simp_all
  have same: "snd (results t ! 0) = snd (results t ! 1)"
    using all m0 m1 by blast
  show ?thesis
  proof (intro exI conjI)
    show "launch None empty_heap fresh_cmd None None = Some s0" by (fact l)
    show "run (world_of None (Some (exit_with 3))) [Terminate, Watch, Watch, Watch, Watch] s0 = Some s"
      by (fact r1)
    show "stored (watcher s)" by (fact st)
    show "run (world_of None (Some (exit_with 3)))
       [Query 1, Query 1, Query 1, Query 2, Query 2, Query 2] s = Some t" by (fact r2)
    show "results s = []" by (fact rs)
    show "map fst (results t) = [1, 2]" by (fact who)
    show "snd (results t ! 0) = snd (results t ! 1)" by (fact same)
  qed
qed

subsection \<open>A start that fails\<close>

lemma not_launched_step:
  "watcher s = NotLaunched \<Longrightarrow> step w a s = Some s' \<Longrightarrow> watcher s' = NotLaunched"
  by (cases a)
     (auto simp: step_def emit_def monitorForExit_def getExitCode_def
           split: if_splits option.splits prod.splits qpc.splits)

lemma not_launched_run:
  "watcher s = NotLaunched \<Longrightarrow> run w sched s = Some t \<Longrightarrow> watcher t = NotLaunched"
  by (induction sched arbitrary: s) (auto split: option.splits dest: not_launched_step)

lemma destination_present:
  "present ow = Inr a \<Longrightarrow> \<exists>d. destination out ow = Inr d"
  by (cases ow) (auto simp: destination_def)

text \<open>
  C2. When \<^verbatim>\<open>command.Start()\<close> fails with error \<open>e\<close>, \<^verbatim>\<open>Start\<close> returns \<open>e\<close>
  together with the session; the \<^verbatim>\<open>go\<close> statement is not executed, so there is no
  watcher; the command has no process; and along every schedule the store keeps the
  sentinel and every query returns \<open>-1\<close>. (The two writers are such that the tests
  of lines 63 and 67 do not panic, so that \<^verbatim>\<open>command.Start()\<close> is reached.)
\<close>

theorem Start_failure:
  assumes "present outWriter = Inr a" and "present errWriter = Inr b"
  shows "\<exists>r. Start (Some e) h c outWriter errWriter = Inr r \<and>
             err r = Some e \<and> \<not> watching r \<and> watcher (initial r) = NotLaunched \<and>
             Process (Command (session r)) = Process c \<and>
             exitCode (session r) = - 1 \<and>
             (\<forall>w sched t. run w sched (initial r) = Some t \<longrightarrow>
                watcher t = NotLaunched \<and> exitCode (sess t) = - 1 \<and>
                (\<forall>x \<in> set (results t). snd x = - 1))"
proof -
  obtain out h1 where o: "NewBuffer h = (out, h1)" by (cases "NewBuffer h")
  obtain er h2 where e: "NewBuffer h1 = (er, h2)" by (cases "NewBuffer h1")
  from destination_present [OF assms(1)] obtain dout where dout: "destination out outWriter = Inr dout"
    by blast
  from destination_present [OF assms(2)] obtain derr where derr: "destination er errWriter = Inr derr"
    by blast
  define r where "r = \<lparr>mem = h2,
      session = \<lparr>Command = c\<lparr>Stdout := Some dout, Stderr := Some derr\<rparr>, Out = out, Err = er,
                 lock = None, exitCode = - 1\<rparr>,
      err = Some e, watching = False\<rparr>"
  have start: "Start (Some e) h c outWriter errWriter = Inr r"
    by (simp add: Start_def o e dout derr Cmd_Start_def r_def)
  have fields: "err r = Some e" "\<not> watching r" "watcher (initial r) = NotLaunched"
    "Process (Command (session r)) = Process c" "exitCode (session r) = - 1"
    by (simp_all add: r_def initial_def)
  have runs: "\<forall>w sched t. run w sched (initial r) = Some t \<longrightarrow>
                watcher t = NotLaunched \<and> exitCode (sess t) = - 1 \<and>
                (\<forall>x \<in> set (results t). snd x = - 1)"
  proof (intro allI impI)
    fix w sched t
    assume run: "run w sched (initial r) = Some t"
    from not_launched_run [OF fields(3) run] have nl: "watcher t = NotLaunched" .
    from consistent_run [OF consistent_initial [OF start] run] have "consistent w t" .
    with nl show "watcher t = NotLaunched \<and> exitCode (sess t) = - 1 \<and>
                (\<forall>x \<in> set (results t). snd x = - 1)"
      by (simp add: consistent_def)
  qed
  from start fields runs show ?thesis by blast
qed

theorem Start_failure_witness:
  "present None = Inr False \<and> present (Some (External KPointer False 7)) = Inr True \<and>
   (\<exists>r. Start (Some (StartError ''executable file not found'')) empty_heap fresh_cmd
           (Some (External KPointer False 7)) None = Inr r \<and>
        err r = Some (StartError ''executable file not found'') \<and> \<not> watching r \<and>
        Process (Command (session r)) = None \<and>
        run (world_of None None) [Query 0, Query 0, Query 0] (initial r) \<noteq> None \<and>
        run (world_of None None) [Watch] (initial r) = None)"
proof -
  have p1: "present (Some (External KPointer False 7)) = Inr True"
    and p2: "present None = Inr False"
    by (simp_all add: present_def IsNil_def)
  from Start_failure [OF p1 p2, of "StartError ''executable file not found''" empty_heap fresh_cmd]
  obtain r where r: "Start (Some (StartError ''executable file not found'')) empty_heap fresh_cmd
           (Some (External KPointer False 7)) None = Inr r"
    "err r = Some (StartError ''executable file not found'')" "\<not> watching r"
    "watcher (initial r) = NotLaunched"
    "Process (Command (session r)) = Process fresh_cmd" "exitCode (session r) = - 1"
    by blast
  from r(5) have np: "Process (Command (session r)) = None"
    by (simp add: fresh_cmd_def)
  from r(1) have "lock (session r) = None"
    by (simp add: Start_session)
  then have q: "run (world_of None None) [Query 0, Query 0, Query 0] (initial r) \<noteq> None"
    by (simp add: initial_def step_def getExitCode_def)
  from r(4) have nw: "run (world_of None None) [Watch] (initial r) = None"
    by (simp add: step_def monitorForExit_def)
  from r(1,2,3) np q nw have "\<exists>r. Start (Some (StartError ''executable file not found'')) empty_heap fresh_cmd
           (Some (External KPointer False 7)) None = Inr r \<and>
        err r = Some (StartError ''executable file not found'') \<and> \<not> watching r \<and>
        Process (Command (session r)) = None \<and>
        run (world_of None None) [Query 0, Query 0, Query 0] (initial r) \<noteq> None \<and>
        run (world_of None None) [Watch] (initial r) = None"
    by (intro exI [of _ r] conjI)
  with p1 p2 show ?thesis by (intro conjI)
qed

subsection \<open>A process that a signal terminated\<close>

lemma Signaled_ExitStatus:
  "Signaled ws \<Longrightarrow> ExitStatus ws = - 1"
  by (simp add: Signaled_def ExitStatus_def Exited_def)

text \<open>
  C10. For a process that a signal terminated, \<^verbatim>\<open>ExitStatus()\<close> is \<open>-1\<close>, the value
  the store is initialised with. So along every schedule, also after the watcher has
  stored the status and returned, the store holds \<open>-1\<close> and every query returns
  \<open>-1\<close>, as for a process that has not exited.
\<close>

theorem signal_exit_is_sentinel:
  assumes "Signaled ws" and "wait_state w = Some ws"
    and "launch None h c ow ew = Some s0" and "run w sched s0 = Some t"
  shows "ExitStatus ws = - 1 \<and> exitCode (sess s0) = - 1 \<and> exitCode (sess t) = - 1 \<and>
         (\<forall>x \<in> set (results t). snd x = - 1)"
proof -
  have sig: "ExitStatus ws = - 1"
    using assms(1) by (rule Signaled_ExitStatus)
  have "consistent w s0"
    using assms(3) by (rule consistent_launch)
  then have c0: "exitCode (sess s0) = - 1"
    using assms(3) by (auto simp: launch_def initial_def split: sum.splits dest: Start_session)
  have ct: "consistent w t"
    using consistent_run [OF consistent_launch [OF assms(3)] assms(4)] .
  from ct assms(2) sig have et: "exitCode (sess t) = - 1"
    by (auto simp: consistent_def split: if_splits)
  from ct assms(2) sig have rt: "\<forall>x \<in> set (results t). snd x = - 1"
    by (auto simp: consistent_def)
  from sig c0 et rt show ?thesis by (intro conjI)
qed

theorem signal_exit_is_sentinel_witness:
  "\<exists>s0 t. Signaled (killed_by 9) \<and>
     wait_state (world_of (Some ExitError) (Some (killed_by 9))) = Some (killed_by 9) \<and>
     launch None empty_heap fresh_cmd None None = Some s0 \<and>
     run (world_of (Some ExitError) (Some (killed_by 9)))
       [Terminate, Watch, Watch, Watch, Watch, Query 0, Query 0, Query 0] s0 = Some t \<and>
     watcher t = Returned \<and> stores t = 1 \<and> exitCode (sess t) = - 1 \<and>
     results t = [(0, - 1)]"
proof -
  define s0 where "s0 = the (launch None empty_heap fresh_cmd None None)"
  define t where "t = the (run (world_of (Some ExitError) (Some (killed_by 9)))
       [Terminate, Watch, Watch, Watch, Watch, Query 0, Query 0, Query 0] s0)"
  have sg: "Signaled (killed_by 9)"
    by (simp add: Signaled_def killed_by_def)
  have ws: "wait_state (world_of (Some ExitError) (Some (killed_by 9))) = Some (killed_by 9)"
    by (simp add: world_of_def)
  have l: "launch None empty_heap fresh_cmd None None = Some s0"
    by (simp add: s0_def model_defs)
  have r: "run (world_of (Some ExitError) (Some (killed_by 9)))
       [Terminate, Watch, Watch, Watch, Watch, Query 0, Query 0, Query 0] s0 = Some t"
    by (simp add: t_def s0_def model_defs)
  have wt: "watcher t = Returned" and n: "stores t = 1" and who: "map fst (results t) = [0]"
    by (simp_all add: t_def s0_def model_defs)
  from signal_exit_is_sentinel [OF sg ws l r]
  have et: "exitCode (sess t) = - 1" and all: "\<forall>x \<in> set (results t). snd x = - 1"
    by blast+
  from who obtain v where one: "results t = [(0, v)]"
    by (cases "results t") auto
  with all have "v = - 1" by simp
  with one have rt: "results t = [(0, - 1)]" by simp
  from sg ws l r wt n et rt show ?thesis
    by (intro exI [of _ s0] exI [of _ t] conjI)
qed

subsection \<open>A wait that fails\<close>

text \<open>The error that \<^verbatim>\<open>command.Wait()\<close> returns is dropped: no step reads it.\<close>

lemma monitorForExit_ignores_wait_error:
  "monitorForExit (w\<lparr>wait_error := x\<rparr>) s = monitorForExit w s"
  by (cases "watcher s") (simp_all add: monitorForExit_def)

lemma emit_ignores_wait_error:
  "emit (w\<lparr>wait_error := x\<rparr>) st p s = emit w st p s"
  by (simp add: emit_def split: option.splits)

lemma step_ignores_wait_error:
  "step (w\<lparr>wait_error := x\<rparr>) a s = step w a s"
  by (cases a)
     (simp_all add: step_def emit_ignores_wait_error monitorForExit_ignores_wait_error)

lemma run_ignores_wait_error:
  "run (w\<lparr>wait_error := x\<rparr>) sched s = run w sched s"
  by (induction sched arbitrary: s)
     (simp_all add: step_ignores_wait_error split: option.splits)

lemma no_crash_step:
  assumes "consistent w s" and "wait_state w = Some ws" and "crashed s = None"
    and "step w a s = Some s'"
  shows "crashed s' = None"
proof (cases a)
  case Terminate
  with assms show ?thesis by (auto simp: step_def split: if_splits)
next
  case (Emit st p)
  with assms show ?thesis
    by (auto simp: step_def emit_def split: if_splits option.splits prod.splits)
next
  case Watch
  with assms show ?thesis
    by (cases "watcher s")
       (auto simp: step_def monitorForExit_def consistent_def split: if_splits option.splits)
next
  case (Query i)
  with assms show ?thesis
    by (cases "callers s i") (auto simp: step_def getExitCode_def split: if_splits)
qed

lemma no_crash_run:
  "consistent w s \<Longrightarrow> wait_state w = Some ws \<Longrightarrow> crashed s = None \<Longrightarrow>
   run w sched s = Some t \<Longrightarrow> crashed t = None"
proof (induction sched arbitrary: s)
  case Nil
  then show ?case by simp
next
  case (Cons a sched)
  from Cons.prems(4) obtain s' where a: "step w a s = Some s'" and rest: "run w sched s' = Some t"
    by (auto split: option.splits)
  from Cons.IH [OF consistent_step [OF Cons.prems(1) a] Cons.prems(2)
                   no_crash_step [OF Cons.prems(1,2,3) a] rest]
  show ?case .
qed

lemma launch_not_crashed:
  "launch sr h c ow ew = Some s0 \<Longrightarrow> crashed s0 = None"
  by (auto simp: launch_def initial_def split: sum.splits)

lemma crashed_stops:
  "crashed s \<noteq> None \<Longrightarrow> step w a s = None"
  by (simp add: step_def)

text \<open>
  The wait of the operating system fails (no child process, say), so that
  \<^verbatim>\<open>command.Wait()\<close> leaves no \<^verbatim>\<open>ProcessState\<close>: the watcher takes the mutex,
  line 85 dereferences the nil pointer, and the program stops with the mutex held.
\<close>

lemma wait_failure_without_state_panics:
  "map_option crashed
     (Option.bind (launch None empty_heap fresh_cmd None None)
        (run (world_of (Some (WaitError ''no child processes'')) None)
           [Terminate, Watch, Watch, Watch])) = Some (Some NilDereference) \<and>
   map_option (lock \<circ> sess)
     (Option.bind (launch None empty_heap fresh_cmd None None)
        (run (world_of (Some (WaitError ''no child processes'')) None)
           [Terminate, Watch, Watch, Watch])) = Some (Some Watcher) \<and>
   Option.bind (launch None empty_heap fresh_cmd None None)
     (run (world_of (Some (WaitError ''no child processes'')) None)
        [Terminate, Watch, Watch, Watch, Query 0]) = None"
  by (simp add: model_defs)

text \<open>
  C4. The claim is that a failed wait is swallowed: no panic, the store keeps the
  sentinel. The code does not do that. When \<^verbatim>\<open>command.Wait()\<close> has failed without a
  \<^verbatim>\<open>ProcessState\<close>, then along every schedule the store does hold \<open>-1\<close> and the
  watcher never gets past its assignment, but whenever the watcher reaches line 85 it
  holds the mutex and its next step is the nil-pointer panic; after the panic no
  goroutine takes another step, so no query is answered any more.
\<close>

theorem failed_wait_panics:
  assumes "wait_state w = None"
    and "launch None h c ow ew = Some s0"
    and "run w sched s0 = Some t"
  shows "exitCode (sess t) = - 1 \<and> \<not> stored (watcher t) \<and>
         (watcher t = AtAssign \<and> crashed t = None \<longrightarrow>
            lock (sess t) = Some Watcher \<and>
            step w Watch t = Some (t\<lparr>crashed := Some NilDereference\<rparr>)) \<and>
         (crashed t \<noteq> None \<longrightarrow> (\<forall>a. step w a t = None))"
proof -
  have ct: "consistent w t"
    using consistent_run [OF consistent_launch [OF assms(2)] assms(3)] .
  have ns: "\<not> stored (watcher t)"
  proof
    assume "stored (watcher t)"
    with ct obtain ws where "wait_state w = Some ws"
      by (auto simp: consistent_def)
    with assms(1) show False by simp
  qed
  with ct have ec: "exitCode (sess t) = - 1"
    by (simp add: consistent_def)
  have pn: "watcher t = AtAssign \<and> crashed t = None \<longrightarrow>
            lock (sess t) = Some Watcher \<and>
            step w Watch t = Some (t\<lparr>crashed := Some NilDereference\<rparr>)"
  proof
    assume at: "watcher t = AtAssign \<and> crashed t = None"
    with ct have held: "lock (sess t) = Some Watcher"
      by (simp add: consistent_def)
    from ct at assms(1) have "ProcessState (Command (sess t)) = None"
      by (simp add: consistent_def)
    with at have "step w Watch t = Some (t\<lparr>crashed := Some NilDereference\<rparr>)"
      by (simp add: step_def monitorForExit_def)
    with held show "lock (sess t) = Some Watcher \<and>
            step w Watch t = Some (t\<lparr>crashed := Some NilDereference\<rparr>)"
      by simp
  qed
  have dead: "crashed t \<noteq> None \<longrightarrow> (\<forall>a. step w a t = None)"
    by (simp add: crashed_stops)
  from ec ns pn dead show ?thesis by (intro conjI)
qed

theorem failed_wait_panics_witness:
  "\<exists>s0 t.
     wait_state (world_of (Some (WaitError ''no child processes'')) None) = None \<and>
     launch None empty_heap fresh_cmd None None = Some s0 \<and>
     run (world_of (Some (WaitError ''no child processes'')) None)
       [Terminate, Watch, Watch] s0 = Some t \<and>
     watcher t = AtAssign \<and> crashed t = None \<and>
     exitCode (sess t) = - 1 \<and> lock (sess t) = Some Watcher \<and>
     step (world_of (Some (WaitError ''no child processes'')) None) Watch t =
       Some (t\<lparr>crashed := Some NilDereference\<rparr>)"
proof -
  define s0 where "s0 = the (launch None empty_heap fresh_cmd None None)"
  define t where "t = the (run (world_of (Some (WaitError ''no child processes'')) None)
       [Terminate, Watch, Watch] s0)"
  have ws: "wait_state (world_of (Some (WaitError ''no child processes'')) None) = None"
    by (simp add: world_of_def)
  have l: "launch None empty_heap fresh_cmd None None = Some s0"
    by (simp add: s0_def model_defs)
  have r: "run (world_of (Some (WaitError ''no child processes'')) None)
       [Terminate, Watch, Watch] s0 = Some t"
    by (simp add: t_def s0_def model_defs)
  have at: "watcher t = AtAssign" and nc: "crashed t = None"
    by (simp_all add: t_def s0_def model_defs)
  from failed_wait_panics [OF ws l r] at nc
  have ec: "exitCode (sess t) = - 1" and held: "lock (sess t) = Some Watcher"
    and pn: "step (world_of (Some (WaitError ''no child processes'')) None) Watch t =
       Some (t\<lparr>crashed := Some NilDereference\<rparr>)"
    by simp_all
  from ws l r at nc ec held pn show ?thesis
    by (intro exI [of _ s0] exI [of _ t] conjI)
qed

subsection \<open>The nil tests on the writers\<close>

lemma present_typed_nil:
  "nilable k \<Longrightarrow> present (Some (External k True i)) = Inr False"
  by (simp add: present_def IsNil_def)

lemma destination_typed_nil:
  "nilable k \<Longrightarrow> destination a (Some (External k True i)) = Inr (Buffer a)"
  by (simp add: destination_def present_typed_nil)

lemma destination_nil:
  "destination a None = Inr (Buffer a)"
  by (simp add: destination_def present_def)

lemma Start_Stdout:
  "Start sr h c ow ew = Inr r \<Longrightarrow>
   destination (Out (session r)) ow = Inr dout \<Longrightarrow> Stdout (Command (session r)) = Some dout"
  by (auto simp: Start_def Cmd_Start_def Let_def split: prod.splits sum.splits option.splits)

lemma Start_Stderr:
  "Start sr h c ow ew = Inr r \<Longrightarrow>
   destination (Err (session r)) ew = Inr derr \<Longrightarrow> Stderr (Command (session r)) = Some derr"
  by (auto simp: Start_def Cmd_Start_def Let_def split: prod.splits sum.splits option.splits)

text \<open>
  C6. A writer that is a non-nil interface holding a nil value (of a kind that can be
  nil) is treated like the nil interface, for either stream: \<^verbatim>\<open>Start\<close> does the same
  as without the writer, and the stream's destination is the capture buffer alone, with
  no fan-out.
\<close>

theorem typed_nil_writer_is_absent:
  assumes "nilable k"
  shows "Start sr h c (Some (External k True i)) ew = Start sr h c None ew \<and>
         Start sr h c ow (Some (External k True i)) = Start sr h c ow None \<and>
         (\<forall>r. Start sr h c (Some (External k True i)) ew = Inr r \<longrightarrow>
              Stdout (Command (session r)) = Some (Buffer (Out (session r)))) \<and>
         (\<forall>r. Start sr h c ow (Some (External k True i)) = Inr r \<longrightarrow>
              Stderr (Command (session r)) = Some (Buffer (Err (session r))))"
proof -
  have a: "Start sr h c (Some (External k True i)) ew = Start sr h c None ew"
    by (simp add: Start_def NewBuffer_def destination_typed_nil [OF assms] destination_nil
             split: sum.splits)
  have b: "Start sr h c ow (Some (External k True i)) = Start sr h c ow None"
    by (simp add: Start_def NewBuffer_def destination_typed_nil [OF assms] destination_nil
             split: sum.splits)
  have c: "\<forall>r. Start sr h c (Some (External k True i)) ew = Inr r \<longrightarrow>
              Stdout (Command (session r)) = Some (Buffer (Out (session r)))"
    using Start_Stdout destination_typed_nil [OF assms] by blast
  have d: "\<forall>r. Start sr h c ow (Some (External k True i)) = Inr r \<longrightarrow>
              Stderr (Command (session r)) = Some (Buffer (Err (session r)))"
    using Start_Stderr destination_typed_nil [OF assms] by blast
  from a b c d show ?thesis by (intro conjI)
qed

theorem typed_nil_writer_is_absent_witness:
  "nilable KPointer \<and>
   Start None empty_heap fresh_cmd (Some (External KPointer True 7)) None =
     Start None empty_heap fresh_cmd None None \<and>
   map_sum id (Stdout \<circ> Command \<circ> session)
     (Start None empty_heap fresh_cmd (Some (External KPointer True 7)) None) =
     Inr (Some (Buffer 0))"
proof -
  have n: "nilable KPointer" by simp
  from typed_nil_writer_is_absent [OF n, of None empty_heap fresh_cmd 7 None None]
  have eq: "Start None empty_heap fresh_cmd (Some (External KPointer True 7)) None =
     Start None empty_heap fresh_cmd None None"
    by blast
  have "map_sum id (Stdout \<circ> Command \<circ> session) (Start None empty_heap fresh_cmd None None) =
     Inr (Some (Buffer 0))"
    by (simp add: model_defs)
  with eq have v: "map_sum id (Stdout \<circ> Command \<circ> session)
     (Start None empty_heap fresh_cmd (Some (External KPointer True 7)) None) =
     Inr (Some (Buffer 0))"
    by simp
  from n eq v show ?thesis by (intro conjI)
qed

lemma present_not_nilable:
  "\<not> nilable k \<Longrightarrow> present (Some (External k n i)) = Inl (ValueError ''reflect.Value.IsNil'' k)"
  by (simp add: present_def IsNil_def)

lemma destination_not_nilable:
  "\<not> nilable k \<Longrightarrow>
   destination a (Some (External k n i)) = Inl (ValueError ''reflect.Value.IsNil'' k)"
  by (simp add: destination_def present_not_nilable)

text \<open>
  C9. A non-nil writer whose dynamic type is of a kind that cannot be nil makes
  \<^verbatim>\<open>Start\<close> panic in \<^verbatim>\<open>reflect.Value.IsNil\<close>, as outWriter and as errWriter,
  whatever the value it holds; no session is returned and nothing is started.
\<close>

theorem non_nilable_writer_panics:
  assumes "\<not> nilable k"
  shows "Start sr h c (Some (External k n i)) ew = Inl (ValueError ''reflect.Value.IsNil'' k) \<and>
         (\<exists>e. Start sr h c ow (Some (External k n i)) = Inl e) \<and>
         (present ow = Inr b \<longrightarrow>
            Start sr h c ow (Some (External k n i)) = Inl (ValueError ''reflect.Value.IsNil'' k)) \<and>
         launch sr h c (Some (External k n i)) ew = None \<and>
         launch sr h c ow (Some (External k n i)) = None"
proof -
  have a: "Start sr h c (Some (External k n i)) ew = Inl (ValueError ''reflect.Value.IsNil'' k)"
    by (simp add: Start_def NewBuffer_def destination_not_nilable [OF assms] split: sum.splits)
  have b: "\<exists>e. Start sr h c ow (Some (External k n i)) = Inl e"
    by (simp add: Start_def NewBuffer_def destination_not_nilable [OF assms] split: sum.splits)
  have c: "present ow = Inr b \<longrightarrow>
            Start sr h c ow (Some (External k n i)) = Inl (ValueError ''reflect.Value.IsNil'' k)"
  proof
    assume p: "present ow = Inr b"
    from destination_present [OF p] obtain d where "destination (length (bufs h)) ow = Inr d"
      by blast
    then show "Start sr h c ow (Some (External k n i)) = Inl (ValueError ''reflect.Value.IsNil'' k)"
      by (simp add: Start_def NewBuffer_def destination_not_nilable [OF assms] split: sum.splits)
  qed
  from a have d: "launch sr h c (Some (External k n i)) ew = None"
    by (simp add: launch_def)
  from b have e: "launch sr h c ow (Some (External k n i)) = None"
    by (auto simp: launch_def)
  from a b c d e show ?thesis by (intro conjI)
qed

theorem non_nilable_writer_panics_witness:
  "\<not> nilable KStruct \<and>
   Start None empty_heap fresh_cmd (Some (External KStruct False 7)) None =
     Inl (ValueError ''reflect.Value.IsNil'' KStruct) \<and>
   Start None empty_heap fresh_cmd None (Some (External KStruct False 7)) =
     Inl (ValueError ''reflect.Value.IsNil'' KStruct)"
proof -
  have n: "\<not> nilable KStruct" by simp
  have p: "present None = Inr False" by (simp add: present_def)
  from non_nilable_writer_panics [OF n, of None empty_heap fresh_cmd False 7 None None False] p
  have a: "Start None empty_heap fresh_cmd (Some (External KStruct False 7)) None =
     Inl (ValueError ''reflect.Value.IsNil'' KStruct)"
    and b: "Start None empty_heap fresh_cmd None (Some (External KStruct False 7)) =
     Inl (ValueError ''reflect.Value.IsNil'' KStruct)"
    by blast+
  from n a b show ?thesis by (intro conjI)
qed

subsection \<open>Writing through the destinations\<close>

lemma Write_length:
  "length (bufs (fst (Write sw v p h))) = length (bufs h)"
  "length (bufs (fst (Write_each sw vs p h))) = length (bufs h)"
  by (induction sw v p h and sw vs p h rule: Write_Write_each.induct)
     (auto simp: Buffer_Write_def split: prod.splits option.splits)

lemma Write_other:
  "a \<notin> set (addresses v) \<Longrightarrow> bufs (fst (Write sw v p h)) ! a = bufs h ! a"
  "a \<notin> set (concat (map addresses vs)) \<Longrightarrow> bufs (fst (Write_each sw vs p h)) ! a = bufs h ! a"
  by (induction sw v p h and sw vs p h rule: Write_Write_each.induct)
     (auto simp: Buffer_Write_def split: prod.splits option.splits)

lemma Buffer_Write_appends:
  "a < length (bufs g) \<Longrightarrow> bufs (fst (Buffer_Write a p g)) ! a = bufs g ! a @ p"
  by (simp add: Buffer_Write_def)

text \<open>Writing through a fan-out of buffer and one more writer.\<close>

lemma fanout_Write:
  "Write sw (MultiWriter [Buffer a, v]) p g =
     (case Buffer_Write a p g of
        (g1, n1, e1) \<Rightarrow>
          (case Write sw v p g1 of
             (g2, n2, e2) \<Rightarrow>
               (g2, n2, if e2 = None \<and> n2 \<noteq> length p then Some ErrShortWrite else e2)))"
  by (auto simp: Buffer_Write_def split: prod.splits option.splits)

lemma fanout_captures:
  assumes "a < length (bufs g)" and "a \<notin> set (addresses v)"
  shows "bufs (fst (Write sw (MultiWriter [Buffer a, v]) p g)) ! a = bufs g ! a @ p"
proof -
  obtain g1 n1 e1 where b: "Buffer_Write a p g = (g1, n1, e1)"
    by (cases "Buffer_Write a p g")
  obtain g2 n2 e2 where w: "Write sw v p g1 = (g2, n2, e2)"
    by (cases "Write sw v p g1")
  from b assms(1) have "bufs g1 ! a = bufs g ! a @ p"
    using Buffer_Write_appends [of a g p] by simp
  moreover from w assms(2) have "bufs g2 ! a = bufs g1 ! a"
    using Write_other(1) [of a v sw p g1] by simp
  moreover have "fst (Write sw (MultiWriter [Buffer a, v]) p g) = g2"
    unfolding fanout_Write b by (simp add: w)
  ultimately show ?thesis by simp
qed


lemma fanout_sink_sees:
  "seen (fst (Write sw (MultiWriter [Buffer a, External k n i]) p g)) i = seen g i @ [p]"
  by (auto simp: Buffer_Write_def split: prod.splits option.splits)

text \<open>
  The copy through a fan-out delivers the same chunks to the buffer and to the sink: all
  of them up to and including the first one on which the sink fails.
\<close>

lemma fanout_Copy:
  assumes "a < length (bufs g)"
  shows "\<exists>m \<le> length ps.
           bufs (fst (Copy sw (MultiWriter [Buffer a, External k n i]) ps g)) ! a =
             bufs g ! a @ concat (take m ps) \<and>
           seen (fst (Copy sw (MultiWriter [Buffer a, External k n i]) ps g)) i =
             seen g i @ take m ps \<and>
           ((\<forall>j hist q. sw j hist q = (length q, None)) \<longrightarrow> m = length ps)"
  using assms
proof (induction ps arbitrary: g)
  case Nil
  then show ?case by simp
next
  case (Cons p ps)
  let ?d = "MultiWriter [Buffer a, External k n i]"
  obtain g' c e where w: "Write sw ?d p g = (g', c, e)"
    by (cases "Write sw ?d p g")
  have cap: "bufs g' ! a = bufs g ! a @ p"
    using fanout_captures [OF Cons.prems, of "External k n i" sw p] w by simp
  have snk: "seen g' i = seen g i @ [p]"
    using fanout_sink_sees [of sw a k n i p g] w by simp
  have len: "a < length (bufs g')"
    using Write_length(1) [of sw ?d p g] w Cons.prems by simp
  show ?case
  proof (cases "e = None \<and> c = length p")
    case True
    with w have step: "Copy sw ?d (p # ps) g = Copy sw ?d ps g'"
      by simp
    from Cons.IH [OF len] obtain m where m: "m \<le> length ps"
      "bufs (fst (Copy sw ?d ps g')) ! a = bufs g' ! a @ concat (take m ps)"
      "seen (fst (Copy sw ?d ps g')) i = seen g' i @ take m ps"
      "(\<forall>j hist q. sw j hist q = (length q, None)) \<longrightarrow> m = length ps"
      by blast
    have "Suc m \<le> length (p # ps)"
      using m(1) by simp
    moreover have "bufs (fst (Copy sw ?d (p # ps) g)) ! a = bufs g ! a @ concat (take (Suc m) (p # ps))"
      using m(2) cap step by simp
    moreover have "seen (fst (Copy sw ?d (p # ps) g)) i = seen g i @ take (Suc m) (p # ps)"
      using m(3) snk step by simp
    moreover have "(\<forall>j hist q. sw j hist q = (length q, None)) \<longrightarrow> Suc m = length (p # ps)"
      using m(4) by simp
    ultimately show ?thesis by blast
  next
    case False
    with w have stop: "fst (Copy sw ?d (p # ps) g) = g'"
      by (cases e) auto
    have fail: "\<not> (\<forall>j hist q. sw j hist q = (length q, None))"
    proof
      assume ok: "\<forall>j hist q. sw j hist q = (length q, None)"
      then have "Write sw ?d p g = (g', length p, None)"
        using w by (auto simp: Buffer_Write_def split: prod.splits option.splits if_splits)
      with w False show False by simp
    qed
    have "Suc 0 \<le> length (p # ps)" by simp
    moreover have "bufs (fst (Copy sw ?d (p # ps) g)) ! a = bufs g ! a @ concat (take (Suc 0) (p # ps))"
      using cap stop by simp
    moreover have "seen (fst (Copy sw ?d (p # ps) g)) i = seen g i @ take (Suc 0) (p # ps)"
      using snk stop by simp
    ultimately show ?thesis using fail by blast
  qed
qed

subsection \<open>What Start connects\<close>

lemma Start_destinations:
  assumes "Start sr h c ow ew = Inr r"
  shows "\<exists>dout derr.
           destination (Out (session r)) ow = Inr dout \<and>
           destination (Err (session r)) ew = Inr derr \<and>
           (Command (session r), err r) = Cmd_Start sr (c\<lparr>Stdout := Some dout, Stderr := Some derr\<rparr>) \<and>
           watching r = (err r = None) \<and>
           Out (session r) = length (bufs h) \<and> Err (session r) = Suc (length (bufs h)) \<and>
           length (bufs (mem r)) = Suc (Suc (length (bufs h)))"
  using assms
  by (auto simp: Start_def NewBuffer_def Let_def split: sum.splits prod.splits)

lemma destination_fanout:
  "destination a (Some (External k n i)) = Inr d \<Longrightarrow> \<not> n \<Longrightarrow>
   d = MultiWriter [Buffer a, External k n i]"
  by (auto simp: destination_def present_def IsNil_def split: if_splits)

text \<open>
  C3. With a writer of the caller that is not nil (interface and value) as outWriter,
  resp. errWriter, the command's \<^verbatim>\<open>Stdout\<close>, resp. \<^verbatim>\<open>Stderr\<close>, is the fan-out
  of the capture buffer and that writer. A write of one chunk to such a fan-out is the
  write to the buffer followed, on the resulting memory, by the write of the same chunk to
  the sink. A copy of a sequence of chunks appends to the buffer exactly the chunks that
  the sink receives, in the same order: all of them when the sink accepts every chunk,
  and otherwise those up to the one on which the sink fails.
\<close>

theorem fanout_delivers_to_both:
  assumes "Start sr h c ow ew = Inr r" and "\<not> n"
  shows "(ow = Some (External k n i) \<longrightarrow>
            Stdout (Command (session r)) =
              Some (MultiWriter [Buffer (Out (session r)), External k n i])) \<and>
         (ew = Some (External k n i) \<longrightarrow>
            Stderr (Command (session r)) =
              Some (MultiWriter [Buffer (Err (session r)), External k n i])) \<and>
         (\<forall>a sw p g.
            Write sw (MultiWriter [Buffer a, External k n i]) p g =
              (case Buffer_Write a p g of
                 (g1, n1, e1) \<Rightarrow>
                   (case Write sw (External k n i) p g1 of
                      (g2, n2, e2) \<Rightarrow>
                        (g2, n2, if e2 = None \<and> n2 \<noteq> length p then Some ErrShortWrite else e2)))) \<and>
         (\<forall>a sw ps g. a < length (bufs g) \<longrightarrow>
            (\<exists>m \<le> length ps.
               bufs (fst (Copy sw (MultiWriter [Buffer a, External k n i]) ps g)) ! a =
                 bufs g ! a @ concat (take m ps) \<and>
               seen (fst (Copy sw (MultiWriter [Buffer a, External k n i]) ps g)) i =
                 seen g i @ take m ps \<and>
               ((\<forall>j hist q. sw j hist q = (length q, None)) \<longrightarrow> m = length ps)))"
proof -
  from Start_destinations [OF assms(1)] obtain dout derr where
    d: "destination (Out (session r)) ow = Inr dout" "destination (Err (session r)) ew = Inr derr"
    by blast
  have out: "ow = Some (External k n i) \<longrightarrow>
            Stdout (Command (session r)) =
              Some (MultiWriter [Buffer (Out (session r)), External k n i])"
    using Start_Stdout [OF assms(1) d(1)] d(1) destination_fanout [OF _ assms(2)] by auto
  have er: "ew = Some (External k n i) \<longrightarrow>
            Stderr (Command (session r)) =
              Some (MultiWriter [Buffer (Err (session r)), External k n i])"
    using Start_Stderr [OF assms(1) d(2)] d(2) destination_fanout [OF _ assms(2)] by auto
  have one: "\<forall>a sw p g.
            Write sw (MultiWriter [Buffer a, External k n i]) p g =
              (case Buffer_Write a p g of
                 (g1, n1, e1) \<Rightarrow>
                   (case Write sw (External k n i) p g1 of
                      (g2, n2, e2) \<Rightarrow>
                        (g2, n2, if e2 = None \<and> n2 \<noteq> length p then Some ErrShortWrite else e2)))"
    by (intro allI) (rule fanout_Write)
  have many: "\<forall>a sw ps g. a < length (bufs g) \<longrightarrow>
            (\<exists>m \<le> length ps.
               bufs (fst (Copy sw (MultiWriter [Buffer a, External k n i]) ps g)) ! a =
                 bufs g ! a @ concat (take m ps) \<and>
               seen (fst (Copy sw (MultiWriter [Buffer a, External k n i]) ps g)) i =
                 seen g i @ take m ps \<and>
               ((\<forall>j hist q. sw j hist q = (length q, None)) \<longrightarrow> m = length ps))"
    by (intro allI impI) (rule fanout_Copy)
  from out er one many show ?thesis by (intro conjI)
qed

theorem fanout_delivers_to_both_witness:
  "\<exists>r. Start None empty_heap fresh_cmd (Some (External KPointer False 7)) None = Inr r \<and>
        Stdout (Command (session r)) = Some (MultiWriter [Buffer 0, External KPointer False 7]) \<and>
        bufs (fst (Copy failing_second (MultiWriter [Buffer 0, External KPointer False 7])
                     [''foo'', ''bar'', ''baz''] (mem r))) = [''foobar'', ''''] \<and>
        seen (fst (Copy failing_second (MultiWriter [Buffer 0, External KPointer False 7])
                     [''foo'', ''bar'', ''baz''] (mem r))) 7 = [''foo'', ''bar'']"
proof -
  define r where "r = projr (Start None empty_heap fresh_cmd (Some (External KPointer False 7)) None)"
  have st: "Start None empty_heap fresh_cmd (Some (External KPointer False 7)) None = Inr r"
    by (simp add: r_def model_defs)
  have o: "Out (session r) = 0"
    by (simp add: r_def model_defs)
  have nn: "\<not> False" by simp
  from fanout_delivers_to_both [OF st nn, of KPointer 7] o
  have so: "Stdout (Command (session r)) = Some (MultiWriter [Buffer 0, External KPointer False 7])"
    by simp
  have b: "bufs (fst (Copy failing_second (MultiWriter [Buffer 0, External KPointer False 7])
                     [''foo'', ''bar'', ''baz''] (mem r))) = [''foobar'', '''']"
    by (simp add: r_def model_defs)
  have sn: "seen (fst (Copy failing_second (MultiWriter [Buffer 0, External KPointer False 7])
                     [''foo'', ''bar'', ''baz''] (mem r))) 7 = [''foo'', ''bar'']"
    by (simp add: r_def model_defs)
  from st so b sn show ?thesis by (intro exI [of _ r] conjI)
qed

lemma destination_shape:
  assumes "destination a w = Inr d" and "allocated h w" and "length (bufs h) \<le> a"
  shows "d = Buffer a \<or> (\<exists>v. d = MultiWriter [Buffer a, v] \<and> a \<notin> set (addresses v))"
proof (cases w)
  case None
  with assms(1) show ?thesis by (simp add: destination_def present_def)
next
  case (Some v)
  from assms(2,3) Some have "a \<notin> set (addresses v)"
    by (auto simp: allocated_def list_all_iff)
  with assms(1) Some show ?thesis
    by (auto simp: destination_def split: sum.splits if_splits)
qed

lemma destination_captures:
  assumes "destination a w = Inr d" and "allocated h w" and "length (bufs h) \<le> a"
    and "a < length (bufs g)"
  shows "bufs (fst (Write sw d p g)) ! a = bufs g ! a @ p"
proof -
  from destination_shape [OF assms(1,2,3)]
  consider "d = Buffer a" | v where "d = MultiWriter [Buffer a, v]" "a \<notin> set (addresses v)"
    by blast
  then show ?thesis
  proof cases
    case 1
    with assms(4) show ?thesis by (simp add: Buffer_Write_appends)
  next
    case 2
    from fanout_captures [OF assms(4) 2(2), of sw p] show ?thesis
      unfolding 2(1) .
  qed
qed

lemma emit_cases:
  assumes "emit w st p s = Some s'"
  obtains (idle) "s' = s"
  | (written) pr d h' n e where "Process (Command (sess s)) = Some pr"
      and "(case st of StdoutStream \<Rightarrow> child_out pr | StderrStream \<Rightarrow> child_err pr) = Some d"
      and "Write (sink w) d p (memory s) = (h', n, e)"
      and "s' = s\<lparr>memory := h', copying := (copying s)(st := (e = None \<and> n = length p))\<rparr>"
proof (cases "Process (Command (sess s))")
  case None
  with assms show ?thesis by (simp add: emit_def)
next
  case (Some pr)
  show ?thesis
  proof (cases "terminated s \<or> \<not> copying s st")
    case True
    with assms Some have "s' = s" by (auto simp: emit_def split: if_splits)
    then show ?thesis by (rule idle)
  next
    case False
    show ?thesis
    proof (cases "case st of StdoutStream \<Rightarrow> child_out pr | StderrStream \<Rightarrow> child_err pr")
      case None
      with assms Some False have "s' = s" by (simp add: emit_def)
      then show ?thesis by (rule idle)
    next
      case d: (Some d)
      obtain h' n e where wr: "Write (sink w) d p (memory s) = (h', n, e)"
        by (cases "Write (sink w) d p (memory s)")
      with assms Some False d
      have "s' = s\<lparr>memory := h', copying := (copying s)(st := (e = None \<and> n = length p))\<rparr>"
        by (simp add: emit_def)
      with Some d wr show ?thesis by (rule written)
    qed
  qed
qed

lemma emit_memory:
  assumes "emit w st p s = Some s'"
  shows "sess s' = sess s \<and>
         (memory s' = memory s \<or> (\<exists>d. memory s' = fst (Write (sink w) d p (memory s))))"
  using assms
proof (cases rule: emit_cases)
  case idle
  then show ?thesis by simp
next
  case (written pr d h' n e)
  then have "sess s' = sess s" and "memory s' = fst (Write (sink w) d p (memory s))"
    by simp_all
  then show ?thesis by blast
qed

lemma step_static:
  assumes "step w a s = Some s'"
  shows "Process (Command (sess s')) = Process (Command (sess s)) \<and>
         Out (sess s') = Out (sess s) \<and> Err (sess s') = Err (sess s) \<and>
         length (bufs (memory s')) = length (bufs (memory s))"
proof (cases a)
  case Terminate
  with assms show ?thesis by (auto simp: step_def split: if_splits)
next
  case (Emit st p)
  with assms have "emit w st p s = Some s'"
    by (simp add: step_def split: if_splits)
  from emit_memory [OF this] show ?thesis
    by (auto simp: Write_length)
next
  case Watch
  with assms show ?thesis
    by (cases "watcher s")
       (auto simp: step_def monitorForExit_def split: if_splits option.splits)
next
  case (Query i)
  with assms show ?thesis
    by (cases "callers s i") (auto simp: step_def getExitCode_def split: if_splits)
qed

lemma run_static:
  "run w sched s = Some t \<Longrightarrow>
   Process (Command (sess t)) = Process (Command (sess s)) \<and>
   Out (sess t) = Out (sess s) \<and> Err (sess t) = Err (sess s) \<and>
   length (bufs (memory t)) = length (bufs (memory s))"
proof (induction sched arbitrary: s)
  case Nil
  then show ?case by simp
next
  case (Cons a sched)
  from Cons.prems obtain s' where a: "step w a s = Some s'" and rest: "run w sched s' = Some t"
    by (auto split: option.splits)
  from step_static [OF a] Cons.IH [OF rest] show ?case by simp
qed

lemma emit_delivers:
  assumes "step w (Emit st p) t = Some t'"
    and "Process (Command (sess t)) = Some pr"
    and "(case st of StdoutStream \<Rightarrow> child_out pr | StderrStream \<Rightarrow> child_err pr) = Some d"
  shows "memory t' = memory t \<or> memory t' = fst (Write (sink w) d p (memory t))"
proof -
  from assms(1) have "emit w st p t = Some t'"
    by (simp add: step_def split: if_splits)
  then show ?thesis
  proof (cases rule: emit_cases)
    case idle
    then show ?thesis by simp
  next
    case (written pr' d' h' n e)
    from written(1) assms(2) have "pr' = pr" by simp
    with written(2) assms(3) have "d' = d" by (cases st) simp_all
    with written show ?thesis by simp
  qed
qed


text \<open>
  C5. \<^verbatim>\<open>Start\<close> calls \<^verbatim>\<open>command.Start()\<close> on the command whose \<^verbatim>\<open>Stdout\<close> and
  \<^verbatim>\<open>Stderr\<close> already are the two destinations, so a process that is launched is
  connected to them. Every write to the destination of a stream appends the chunk to the
  capture buffer of that stream. Hence, after a successful \<^verbatim>\<open>Start\<close> and along every
  schedule, a chunk that the process writes either changes nothing in memory or is
  appended to the capture buffer: no output reaches a sink without being captured. (The
  writers of the caller refer to buffers that exist before the call.)
\<close>

theorem Start_wires_before_launch:
  assumes "Start sr h c ow ew = Inr r" and "allocated h ow" and "allocated h ew"
  shows "\<exists>dout derr.
     destination (Out (session r)) ow = Inr dout \<and>
     destination (Err (session r)) ew = Inr derr \<and>
     (Command (session r), err r) = Cmd_Start sr (c\<lparr>Stdout := Some dout, Stderr := Some derr\<rparr>) \<and>
     (err r = None \<longrightarrow>
        Process (Command (session r)) = Some \<lparr>child_out = Some dout, child_err = Some derr\<rparr>) \<and>
     (\<forall>sw p g. length (bufs g) = length (bufs (mem r)) \<longrightarrow>
        bufs (fst (Write sw dout p g)) ! Out (session r) = bufs g ! Out (session r) @ p \<and>
        bufs (fst (Write sw derr p g)) ! Err (session r) = bufs g ! Err (session r) @ p) \<and>
     (err r = None \<longrightarrow>
        (\<forall>w sched t p t'. run w sched (initial r) = Some t \<longrightarrow>
           (step w (Emit StdoutStream p) t = Some t' \<longrightarrow>
              memory t' = memory t \<or>
              bufs (memory t') ! Out (session r) = bufs (memory t) ! Out (session r) @ p) \<and>
           (step w (Emit StderrStream p) t = Some t' \<longrightarrow>
              memory t' = memory t \<or>
              bufs (memory t') ! Err (session r) = bufs (memory t) ! Err (session r) @ p)))"
proof -
  from Start_destinations [OF assms(1)] obtain dout derr where
    dout: "destination (Out (session r)) ow = Inr dout" and
    derr: "destination (Err (session r)) ew = Inr derr" and
    cmd: "(Command (session r), err r) = Cmd_Start sr (c\<lparr>Stdout := Some dout, Stderr := Some derr\<rparr>)" and
    out: "Out (session r) = length (bufs h)" and er: "Err (session r) = Suc (length (bufs h))" and
    len: "length (bufs (mem r)) = Suc (Suc (length (bufs h)))"
    by blast
  have proc: "err r = None \<longrightarrow>
        Process (Command (session r)) = Some \<lparr>child_out = Some dout, child_err = Some derr\<rparr>"
    using cmd by (cases sr) (auto simp: Cmd_Start_def)
  have cap: "bufs (fst (Write sw dout p g)) ! Out (session r) = bufs g ! Out (session r) @ p \<and>
        bufs (fst (Write sw derr p g)) ! Err (session r) = bufs g ! Err (session r) @ p"
    if g: "length (bufs g) = length (bufs (mem r))" for sw p g
  proof
    show "bufs (fst (Write sw dout p g)) ! Out (session r) = bufs g ! Out (session r) @ p"
      using destination_captures [OF dout assms(2)] out g len by simp
    show "bufs (fst (Write sw derr p g)) ! Err (session r) = bufs g ! Err (session r) @ p"
      using destination_captures [OF derr assms(3)] er g len by simp
  qed
  have emits: "(step w (Emit StdoutStream p) t = Some t' \<longrightarrow>
              memory t' = memory t \<or>
              bufs (memory t') ! Out (session r) = bufs (memory t) ! Out (session r) @ p) \<and>
           (step w (Emit StderrStream p) t = Some t' \<longrightarrow>
              memory t' = memory t \<or>
              bufs (memory t') ! Err (session r) = bufs (memory t) ! Err (session r) @ p)"
    if ok: "err r = None" and run: "run w sched (initial r) = Some t" for w sched t p t'
  proof -
    from run_static [OF run]
    have pr: "Process (Command (sess t)) = Some \<lparr>child_out = Some dout, child_err = Some derr\<rparr>"
      and g: "length (bufs (memory t)) = length (bufs (mem r))"
      using proc ok by (simp_all add: initial_def)
    show ?thesis
    proof (intro conjI impI)
      assume "step w (Emit StdoutStream p) t = Some t'"
      from emit_delivers [OF this pr, of dout] cap [OF g, of "sink w" p]
      show "memory t' = memory t \<or>
              bufs (memory t') ! Out (session r) = bufs (memory t) ! Out (session r) @ p"
        by auto
    next
      assume "step w (Emit StderrStream p) t = Some t'"
      from emit_delivers [OF this pr, of derr] cap [OF g, of "sink w" p]
      show "memory t' = memory t \<or>
              bufs (memory t') ! Err (session r) = bufs (memory t) ! Err (session r) @ p"
        by auto
    qed
  qed
  from dout derr cmd proc cap emits show ?thesis
    by (intro exI [of _ dout] exI [of _ derr] conjI) blast+
qed


theorem Start_wires_before_launch_witness:
  "\<exists>r. Start None empty_heap fresh_cmd (Some (External KPointer False 7)) None = Inr r \<and>
        allocated empty_heap (Some (External KPointer False 7)) \<and>
        allocated empty_heap None \<and>
        err r = None \<and>
        Process (Command (session r)) =
          Some \<lparr>child_out = Some (MultiWriter [Buffer 0, External KPointer False 7]),
                child_err = Some (Buffer 1)\<rparr> \<and>
        map_option (bufs \<circ> memory)
          (run (world_of None None) [Emit StdoutStream ''foo'', Emit StderrStream ''bar'']
             (initial r)) = Some [''foo'', ''bar'']"
proof -
  define r where "r = projr (Start None empty_heap fresh_cmd (Some (External KPointer False 7)) None)"
  have st: "Start None empty_heap fresh_cmd (Some (External KPointer False 7)) None = Inr r"
    by (simp add: r_def model_defs)
  have a1: "allocated empty_heap (Some (External KPointer False 7))"
    and a2: "allocated empty_heap None"
    by (simp_all add: allocated_def)
  have ok: "err r = None" and o: "Out (session r) = 0" and e: "Err (session r) = 1"
    by (simp_all add: r_def model_defs)
  from Start_wires_before_launch [OF st a1 a2] ok obtain dout derr where
    d: "destination (Out (session r)) (Some (External KPointer False 7)) = Inr dout"
       "destination (Err (session r)) None = Inr derr"
    and pr: "Process (Command (session r)) = Some \<lparr>child_out = Some dout, child_err = Some derr\<rparr>"
    by blast
  from d o e have "dout = MultiWriter [Buffer 0, External KPointer False 7]" and "derr = Buffer 1"
    by (simp_all add: destination_def present_def IsNil_def)
  with pr have pr': "Process (Command (session r)) =
          Some \<lparr>child_out = Some (MultiWriter [Buffer 0, External KPointer False 7]),
                child_err = Some (Buffer 1)\<rparr>"
    by simp
  have out: "map_option (bufs \<circ> memory)
          (run (world_of None None) [Emit StdoutStream ''foo'', Emit StderrStream ''bar'']
             (initial r)) = Some [''foo'', ''bar'']"
    by (simp add: r_def model_defs)
  from st a1 a2 ok pr' out show ?thesis by (intro exI [of _ r] conjI)
qed

end
